theory Spec2Isabelle
  imports Complex_Main "HOL-Library.Char_ord" "HOL-Library.List_Lexorder" "HOL-Library.Multiset"
begin

text \<open>
  A model of the CarbonCue sources. The dashboard script (kept in \<open>service-worker.js\<close>
  after the service worker itself) parses an uploaded CSV text into activity records,
  multiplies each amount by the emission factor of its category, and renders a summary, a
  monthly trend and a per-category analysis. The calculator (\<open>script.js\<close>) computes one
  result from three inputs and keeps saved results in the local storage.

  Pure functions become HOL functions of the same name. The global \<open>activityData\<close> and
  the page are passed explicitly, exceptions are values of the type \<open>error\<close>, and what
  a render function writes to the page is returned as data. Formatting of numbers, drawing
  and the service worker's cache are left out.
\<close>

section \<open>Host values\<close>

subsection \<open>Numbers\<close>

text \<open>
  A JavaScript number is modelled as an exact rational extended by the two infinities and
  NaN. Arithmetic follows IEEE 754 on these four shapes; rounding, overflow and the sign of
  zero are outside the model, so an equation between sums proved here is the exact
  counterpart of an equation "within floating-point tolerance". The only division in the
  modelled code divides by a sum that starts from the literal \<open>0\<close>, which is never
  the negative zero.
\<close>

datatype number = Fin rat | PInf | NInf | NaN

fun add :: "number \<Rightarrow> number \<Rightarrow> number" where
  "add NaN y = NaN"
| "add x NaN = NaN"
| "add (Fin a) (Fin b) = Fin (a + b)"
| "add PInf NInf = NaN"
| "add NInf PInf = NaN"
| "add PInf y = PInf"
| "add NInf y = NInf"
| "add (Fin a) y = y"

fun neg :: "number \<Rightarrow> number" where
  "neg (Fin a) = Fin (- a)"
| "neg PInf = NInf"
| "neg NInf = PInf"
| "neg NaN = NaN"

definition sub :: "number \<Rightarrow> number \<Rightarrow> number" where
  "sub x y = add x (neg y)"

text \<open>The sign of a number other than NaN, as \<open>-1\<close>, \<open>0\<close> or \<open>1\<close>.\<close>

fun signum :: "number \<Rightarrow> int" where
  "signum (Fin a) = (if a < 0 then -1 else if a = 0 then 0 else 1)"
| "signum PInf = 1"
| "signum NInf = -1"
| "signum NaN = 0"

fun isFinite :: "number \<Rightarrow> bool" where
  "isFinite (Fin a) = True"
| "isFinite x = False"

definition signed_inf :: "int \<Rightarrow> number" where
  "signed_inf s = (if s < 0 then NInf else PInf)"

fun mul :: "number \<Rightarrow> number \<Rightarrow> number" where
  "mul NaN y = NaN"
| "mul x NaN = NaN"
| "mul (Fin a) (Fin b) = Fin (a * b)"
| "mul x y = (if signum x = 0 \<or> signum y = 0 then NaN else signed_inf (signum x * signum y))"

text \<open>Division, with a zero divisor read as the positive zero.\<close>

fun divide_num :: "number \<Rightarrow> number \<Rightarrow> number" where
  "divide_num NaN y = NaN"
| "divide_num x NaN = NaN"
| "divide_num (Fin a) (Fin b) =
     (if b = 0 then (if a = 0 then NaN else signed_inf (signum (Fin a))) else Fin (a / b))"
| "divide_num (Fin a) y = Fin 0"
| "divide_num x (Fin b) = signed_inf (signum x * (if b < 0 then -1 else 1))"
| "divide_num x y = NaN"

text \<open>Truthiness of a number: \<open>0\<close> and NaN are falsy.\<close>

fun truthy :: "number \<Rightarrow> bool" where
  "truthy (Fin a) = (a \<noteq> 0)"
| "truthy NaN = False"
| "truthy x = True"

text \<open>The idiom \<open>x || 0\<close> on a possibly undefined number.\<close>

fun or_zero :: "number option \<Rightarrow> number" where
  "or_zero None = Fin 0"
| "or_zero (Some x) = (if truthy x then x else Fin 0)"

subsection \<open>Strings\<close>

text \<open>
  Strings are lists of 8-bit characters; the model covers ASCII text. White space is what
  \<open>String.prototype.trim\<close> strips within ASCII.
\<close>

definition isSpace :: "char \<Rightarrow> bool" where
  "isSpace c = (c \<in> set [CHR '' '', CHR 0x09, CHR 0x0A, CHR 0x0B, CHR 0x0C, CHR 0x0D])"

definition trim :: "string \<Rightarrow> string" where
  "trim s = rev (dropWhile isSpace (rev (dropWhile isSpace s)))"

definition lower_char :: "char \<Rightarrow> char" where
  "lower_char c =
     (case map_of (zip ''ABCDEFGHIJKLMNOPQRSTUVWXYZ'' ''abcdefghijklmnopqrstuvwxyz'') c of
        Some l \<Rightarrow> l
      | None \<Rightarrow> c)"

definition toLowerCase :: "string \<Rightarrow> string" where
  "toLowerCase s = map lower_char s"

definition startsWith :: "string \<Rightarrow> string \<Rightarrow> bool" where
  "startsWith s p = (take (length p) s = p)"

text \<open>\<open>s.split(c)\<close> for a one-character separator: the empty string gives one empty piece.\<close>

fun split_on :: "char \<Rightarrow> string \<Rightarrow> string list" where
  "split_on c [] = [[]]"
| "split_on c (x # xs) =
     (if x = c then [] # split_on c xs
      else (case split_on c xs of p # ps \<Rightarrow> (x # p) # ps | [] \<Rightarrow> [[x]]))"

text \<open>
  \<open>s.split(/\r?\n/)\<close>: every line feed ends a piece, and a carriage return right before
  it belongs to the separator.
\<close>

fun split_lines :: "string \<Rightarrow> string list" where
  "split_lines [] = [[]]"
| "split_lines (x # xs) =
     (if x = CHR 0x0A then [] # split_lines xs
      else if x = CHR 0x0D \<and> xs \<noteq> [] \<and> hd xs = CHR 0x0A then [] # split_lines (tl xs)
      else (case split_lines xs of p # ps \<Rightarrow> (x # p) # ps | [] \<Rightarrow> [[x]]))"

text \<open>Decimal rendering of an integer, as \<open>String(n)\<close> prints it.\<close>

definition digit_char :: "nat \<Rightarrow> char" where
  "digit_char d = ''0123456789'' ! d"

fun show_nat :: "nat \<Rightarrow> string" where
  "show_nat n = (if n < 10 then [digit_char n] else show_nat (n div 10) @ [digit_char (n mod 10)])"

declare show_nat.simps [simp del]

definition show_int :: "int \<Rightarrow> string" where
  "show_int i = (if i < 0 then CHR ''-'' # show_nat (nat (- i)) else show_nat (nat i))"

text \<open>\<open>s.padStart(n, '0')\<close>.\<close>

definition padStart0 :: "nat \<Rightarrow> string \<Rightarrow> string" where
  "padStart0 n s = replicate (n - length s) CHR ''0'' @ s"

subsection \<open>Objects used as dictionaries\<close>

text \<open>
  The own properties of an object literal \<open>{}\<close> filled by assignment are an association
  list in insertion order: assigning to an existing key keeps its place, a new key goes to
  the end.
\<close>

type_synonym 'v obj = "(string \<times> 'v) list"

definition obj_get :: "'v obj \<Rightarrow> string \<Rightarrow> 'v option" where
  "obj_get obj k = map_of obj k"

fun obj_set :: "'v obj \<Rightarrow> string \<Rightarrow> 'v \<Rightarrow> 'v obj" where
  "obj_set [] k v = [(k, v)]"
| "obj_set ((k', v') # rest) k v =
     (if k' = k then (k, v) # rest else (k', v') # obj_set rest k v)"

text \<open>
  A plain object also inherits the properties of \<open>Object.prototype\<close>. Reading a name
  that is not an own property finds the inherited one: a function, or for \<open>__proto__\<close>
  the prototype object itself. Assigning to an inherited function name creates an own
  property as usual, but assigning a number or a string to \<open>__proto__\<close> goes to the
  inherited setter, which ignores it: no own property is created.
\<close>

definition Object_prototype_names :: "string list" where
  "Object_prototype_names =
     [''constructor'', ''__defineGetter__'', ''__defineSetter__'', ''hasOwnProperty'',
      ''__lookupGetter__'', ''__lookupSetter__'', ''isPrototypeOf'', ''propertyIsEnumerable'',
      ''toString'', ''valueOf'', ''__proto__'', ''toLocaleString'']"

definition inherited :: "string \<Rightarrow> bool" where
  "inherited k = (k \<in> set Object_prototype_names)"

text \<open>\<open>obj[k] = v\<close> for a number or string \<open>v\<close>.\<close>

definition assign :: "'v obj \<Rightarrow> string \<Rightarrow> 'v \<Rightarrow> 'v obj" where
  "assign obj k v = (if k = ''__proto__'' then obj else obj_set obj k v)"

text \<open>
  The values the totals objects hold and the program reads from them: numbers, and
  \<open>NonNum\<close> for every other value met here, which is a function or the prototype object
  read through an inherited name, or the string that \<open>+\<close> makes of such a value and a
  number. All of these are truthy, convert to the number NaN, make a string of every sum
  they enter, and have no \<open>toFixed\<close> method.
\<close>

datatype jsval = Num number | NonNum

fun to_number :: "jsval \<Rightarrow> number" where
  "to_number (Num n) = n"
| "to_number NonNum = NaN"

fun plus :: "jsval \<Rightarrow> jsval \<Rightarrow> jsval" where
  "plus (Num a) (Num b) = Num (add a b)"
| "plus x y = NonNum"

fun has_toFixed :: "jsval \<Rightarrow> bool" where
  "has_toFixed (Num n) = True"
| "has_toFixed NonNum = False"

text \<open>\<open>obj[k]\<close> read from a totals object: \<open>None\<close> is \<open>undefined\<close>.\<close>

definition read_prop :: "jsval obj \<Rightarrow> string \<Rightarrow> jsval option" where
  "read_prop obj k =
     (case obj_get obj k of
        Some v \<Rightarrow> Some v
      | None \<Rightarrow> if inherited k then Some NonNum else None)"

text \<open>The idiom \<open>x || 0\<close> on a value read from an object.\<close>

fun or_zero_val :: "jsval option \<Rightarrow> jsval" where
  "or_zero_val None = Num (Fin 0)"
| "or_zero_val (Some (Num n)) = Num (if truthy n then n else Fin 0)"
| "or_zero_val (Some NonNum) = NonNum"

text \<open>\<open>!x\<close> on a value read from an object.\<close>

fun falsy :: "jsval option \<Rightarrow> bool" where
  "falsy None = True"
| "falsy (Some (Num n)) = (\<not> truthy n)"
| "falsy (Some NonNum) = False"

text \<open>\<open>table[k] || 0\<close> on a table of numbers.\<close>

definition factor_of :: "number obj \<Rightarrow> string \<Rightarrow> jsval" where
  "factor_of table k =
     (case obj_get table k of
        Some f \<Rightarrow> Num (or_zero (Some f))
      | None \<Rightarrow> if inherited k then NonNum else Num (Fin 0))"

text \<open>\<open>xs.reduce((a, b) => a + b, 0)\<close>.\<close>

definition reduce_add :: "jsval list \<Rightarrow> jsval" where
  "reduce_add xs = foldl plus (Num (Fin 0)) xs"

text \<open>
  Enumeration order of own string keys: array indices (canonical decimal integers below
  \<open>2^32 - 1\<close>) first, in ascending numeric order, then every other key in insertion order.
\<close>

definition isDigit :: "char \<Rightarrow> bool" where
  "isDigit c = (c \<in> set ''0123456789'')"

definition digit_val :: "char \<Rightarrow> int" where
  "digit_val c =
     (case map_of (zip ''0123456789'' [0, 1, 2, 3, 4, 5, 6, 7, 8, 9]) c of
        Some d \<Rightarrow> d
      | None \<Rightarrow> 0)"

definition decimal_val :: "string \<Rightarrow> int" where
  "decimal_val s = foldl (\<lambda>a c. 10 * a + digit_val c) 0 s"

definition isArrayIndex :: "string \<Rightarrow> bool" where
  "isArrayIndex k =
     (k \<noteq> [] \<and> list_all isDigit k \<and> (k = ''0'' \<or> hd k \<noteq> CHR ''0'') \<and>
      decimal_val k < 4294967295)"

definition Object_entries :: "'v obj \<Rightarrow> (string \<times> 'v) list" where
  "Object_entries obj =
     sort_key (\<lambda>e. decimal_val (fst e)) (filter (\<lambda>e. isArrayIndex (fst e)) obj)
     @ filter (\<lambda>e. \<not> isArrayIndex (fst e)) obj"

definition Object_keys :: "'v obj \<Rightarrow> string list" where
  "Object_keys obj = map fst (Object_entries obj)"

definition Object_values :: "'v obj \<Rightarrow> 'v list" where
  "Object_values obj = map snd (Object_entries obj)"

subsection \<open>Sorting arrays\<close>

text \<open>
  \<open>Array.prototype.sort\<close> is stable. With a comparator, an element moves behind another
  exactly when the comparator's result is positive; a NaN result counts as \<open>0\<close>. The
  model is the stable insertion sort, which is the result of every conforming sort when the
  comparator is a consistent ordering of the elements. When it is not, as with
  \<open>b[1] - a[1]\<close> on totals of which one is NaN or not a number, the language leaves the
  order to the engine; every property below that speaks of the sorted order of totals
  carries hypotheses under which all compared totals are finite numbers.
\<close>

definition positive :: "number \<Rightarrow> bool" where
  "positive v = (signum v = 1)"

fun insert_by :: "('a \<Rightarrow> 'a \<Rightarrow> number) \<Rightarrow> 'a \<Rightarrow> 'a list \<Rightarrow> 'a list" where
  "insert_by cmp x [] = [x]"
| "insert_by cmp x (y # ys) =
     (if positive (cmp x y) then y # insert_by cmp x ys else x # y # ys)"

definition sort_by :: "('a \<Rightarrow> 'a \<Rightarrow> number) \<Rightarrow> 'a list \<Rightarrow> 'a list" where
  "sort_by cmp xs = foldr (insert_by cmp) xs []"

text \<open>
  Without a comparator the elements are compared as strings by their code units, which on
  ASCII strings is the lexicographic order of the character codes.
\<close>

definition sort_strings :: "string list \<Rightarrow> string list" where
  "sort_strings xs = sort xs"

subsection \<open>Dates\<close>

text \<open>
  A valid \<open>Date\<close> object, as far as the program reads it: its time value in milliseconds
  and the calendar year and month (\<open>0\<close> to \<open>11\<close>) the host derives from it in
  local time. Parsing text into a date and into a number is the host's work, so the parser
  below takes both functions as parameters; the date parser returns \<open>None\<close> for an
  invalid date.
\<close>

record jsdate =
  getTime :: int
  getFullYear :: int
  getMonth :: nat

text \<open>\<open>new Date(v)\<close> followed by the \<open>isNaN\<close> test; \<open>undefined\<close> gives an invalid date.\<close>

definition newDate :: "(string \<Rightarrow> jsdate option) \<Rightarrow> string option \<Rightarrow> jsdate option" where
  "newDate Date_parse v = (case v of None \<Rightarrow> None | Some s \<Rightarrow> Date_parse s)"

datatype error = TypeError | SyntaxError

section \<open>The dashboard: CSV records to emissions\<close>

subsection \<open>Emission factors\<close>

definition EMISSION_FACTORS :: "number obj" where
  "EMISSION_FACTORS =
     [(''electricity'', Fin (82 / 100)),
      (''transport_car'', Fin (17067 / 100000)),
      (''transport_bus'', Fin (11 / 100)),
      (''transport_train'', Fin (4 / 100)),
      (''transport_flight'', Fin (46 / 100)),
      (''waste'', Fin 1)]"

subsection \<open>parseCSV\<close>

text \<open>
  A parsed row keeps the string properties set from the header in \<open>props\<close>; the
  properties \<open>date\<close>, \<open>amount\<close> and \<open>category\<close>, which the parser overwrites with
  typed values, are fields of their own.
\<close>

record activity =
  props :: "string obj"
  date :: jsdate
  amount :: number
  category :: string

text \<open>\<open>values[idx] ? values[idx].trim() : ''\<close>\<close>

definition field_at :: "string list \<Rightarrow> nat \<Rightarrow> string" where
  "field_at vals idx = (if idx < length vals \<and> vals ! idx \<noteq> [] then trim (vals ! idx) else [])"

text \<open>\<open>header.forEach((key, idx) => { record[key] = ... })\<close> on a fresh object.\<close>

definition build_record :: "string list \<Rightarrow> string list \<Rightarrow> string obj" where
  "build_record header vals =
     foldl (\<lambda>record (key, idx). assign record key (field_at vals idx)) []
       (zip header [0 ..< length header])"

text \<open>
  The loop over the data lines. Reading \<open>record.category.toLowerCase()\<close> when the header
  has no \<open>category\<close> column throws a TypeError, which ends the whole call.
\<close>

fun parse_lines ::
  "(string \<Rightarrow> jsdate option) \<Rightarrow> (string \<Rightarrow> number) \<Rightarrow> string list \<Rightarrow> string list
     \<Rightarrow> error + activity list" where
  "parse_lines Date_parse parseFloat header [] = Inr []"
| "parse_lines Date_parse parseFloat header (line # rest) =
     (if line = [] \<or> startsWith line ''#'' then parse_lines Date_parse parseFloat header rest
      else
        let record = build_record header (split_on CHR '','' line) in
        (case newDate Date_parse (obj_get record ''date'') of
           None \<Rightarrow> parse_lines Date_parse parseFloat header rest
         | Some d \<Rightarrow>
             (case obj_get record ''category'' of
                None \<Rightarrow> Inl TypeError
              | Some c \<Rightarrow>
                  (case parse_lines Date_parse parseFloat header rest of
                     Inl e \<Rightarrow> Inl e
                   | Inr data \<Rightarrow>
                       Inr (\<lparr>props = record,
                             date = d,
                             amount = parseFloat (case obj_get record ''amount'' of
                                                    None \<Rightarrow> ''undefined'' | Some a \<Rightarrow> a),
                             category = toLowerCase c\<rparr> # data)))))"

definition header_of :: "string \<Rightarrow> string list" where
  "header_of line = map (\<lambda>h. toLowerCase (trim h)) (split_on CHR '','' line)"

definition parseCSV ::
  "(string \<Rightarrow> jsdate option) \<Rightarrow> (string \<Rightarrow> number) \<Rightarrow> string \<Rightarrow> error + activity list" where
  "parseCSV Date_parse parseFloat text =
     (let lines = split_lines (trim text) in
      if length lines < 2 then Inr []
      else parse_lines Date_parse parseFloat (header_of (hd lines)) (tl lines))"

subsection \<open>processData\<close>

record measured = activity +
  emission :: number

text \<open>
  \<open>const factor = EMISSION_FACTORS[rec.category] || 0; rec.emission = factor * rec.amount\<close>
\<close>

definition set_emission :: "activity \<Rightarrow> measured" where
  "set_emission rec =
     \<lparr>props = props rec, date = date rec, amount = amount rec, category = category rec,
      emission = mul (to_number (factor_of EMISSION_FACTORS (category rec))) (amount rec)\<rparr>"

definition by_date :: "measured \<Rightarrow> measured \<Rightarrow> number" where
  "by_date a b = sub (Fin (of_int (getTime (date a)))) (Fin (of_int (getTime (date b))))"

text \<open>The array the render functions read; an empty array is left alone and nothing is rendered.\<close>

definition processData :: "activity list \<Rightarrow> measured list" where
  "processData activityData =
     (if activityData = [] then [] else sort_by by_date (map set_emission activityData))"

text \<open>The property key \<open>rec.department\<close> becomes: an absent column reads as \<open>undefined\<close>.\<close>

definition department :: "'a activity_scheme \<Rightarrow> string" where
  "department rec = (case obj_get (props rec) ''department'' of None \<Rightarrow> ''undefined'' | Some d \<Rightarrow> d)"

subsection \<open>renderSummary\<close>

text \<open>\<open>if (!t[k]) t[k] = 0; t[k] += e\<close>\<close>

definition add_to_reset :: "jsval obj \<Rightarrow> string \<Rightarrow> number \<Rightarrow> jsval obj" where
  "add_to_reset t k e =
     (let t1 = (if falsy (read_prop t k) then assign t k (Num (Fin 0)) else t)
      in assign t1 k (plus (case read_prop t1 k of None \<Rightarrow> Num NaN | Some v \<Rightarrow> v) (Num e)))"

text \<open>\<open>t[k] = (t[k] || 0) + e\<close>\<close>

definition add_to :: "jsval obj \<Rightarrow> string \<Rightarrow> number \<Rightarrow> jsval obj" where
  "add_to t k e = assign t k (plus (or_zero_val (read_prop t k)) (Num e))"

text \<open>The comparator \<open>(a, b) => b[1] - a[1]\<close>.\<close>

definition descending :: "string \<times> jsval \<Rightarrow> string \<times> jsval \<Rightarrow> number" where
  "descending a b = sub (to_number (snd b)) (to_number (snd a))"

definition first_entry :: "'a list \<Rightarrow> 'a option" where
  "first_entry xs = (case xs of [] \<Rightarrow> None | x # _ \<Rightarrow> Some x)"

record summary =
  total :: number
  deptTotals :: "jsval obj"
  catTotals :: "jsval obj"
  topDept :: "(string \<times> jsval) option"
  topCat :: "(string \<times> jsval) option"

text \<open>What \<open>renderSummary\<close> computes before it builds the cards.\<close>

definition summarise :: "measured list \<Rightarrow> summary" where
  "summarise activityData =
     (let total = foldl (\<lambda>sum rec. add sum (emission rec)) (Fin 0) activityData;
          deptTotals = foldl (\<lambda>t rec. add_to_reset t (department rec) (emission rec)) [] activityData;
          catTotals = foldl (\<lambda>t rec. add_to_reset t (category rec) (emission rec)) [] activityData
      in \<lparr>total = total, deptTotals = deptTotals, catTotals = catTotals,
          topDept = first_entry (sort_by descending (Object_entries deptTotals)),
          topCat = first_entry (sort_by descending (Object_entries catTotals))\<rparr>)"

text \<open>
  The cards format the total and the values of the two top entries with \<open>toFixed\<close>,
  which throws a TypeError on a top value that is not a number.
\<close>

definition formats :: "(string \<times> jsval) option \<Rightarrow> bool" where
  "formats first = (case first of None \<Rightarrow> True | Some e \<Rightarrow> has_toFixed (snd e))"

definition renderSummary :: "measured list \<Rightarrow> error + summary" where
  "renderSummary activityData =
     (let s = summarise activityData
      in if formats (topDept s) \<and> formats (topCat s) then Inr s else Inl TypeError)"

subsection \<open>renderBarCharts\<close>

text \<open>
  The bars of one chart in their order, each with its label and the value shown above it;
  the heights are drawing and left out. The value label is made with \<open>toFixed\<close>.
\<close>

definition renderBarChart :: "jsval obj \<Rightarrow> error + (string \<times> number) list" where
  "renderBarChart dataMap =
     (let entries = sort_by descending (Object_entries dataMap)
      in if list_all (\<lambda>e. has_toFixed (snd e)) entries
         then Inr (map (\<lambda>e. (fst e, to_number (snd e))) entries)
         else Inl TypeError)"

definition renderBarCharts ::
  "measured list \<Rightarrow> error + ((string \<times> number) list \<times> (string \<times> number) list)" where
  "renderBarCharts activityData =
     (let deptTotals = foldl (\<lambda>t rec. add_to t (department rec) (emission rec)) [] activityData;
          catTotals = foldl (\<lambda>t rec. add_to t (category rec) (emission rec)) [] activityData
      in case renderBarChart deptTotals of
           Inl e \<Rightarrow> Inl e
         | Inr depts \<Rightarrow>
             (case renderBarChart catTotals of
                Inl e \<Rightarrow> Inl e
              | Inr cats \<Rightarrow> Inr (depts, cats)))"

subsection \<open>renderTrendChart\<close>

definition monthKey :: "jsdate \<Rightarrow> string" where
  "monthKey d = show_int (getFullYear d) @ ''-'' @ padStart0 2 (show_nat (getMonth d + 1))"

definition monthlyTotals :: "measured list \<Rightarrow> jsval obj" where
  "monthlyTotals activityData =
     foldl (\<lambda>t rec. add_to t (monthKey (date rec)) (emission rec)) [] activityData"

text \<open>The labels and values handed to the line chart.\<close>

definition renderTrendChart :: "measured list \<Rightarrow> string list \<times> jsval option list" where
  "renderTrendChart activityData =
     (let labels = sort_strings (Object_keys (monthlyTotals activityData))
      in (labels, map (read_prop (monthlyTotals activityData)) labels))"

subsection \<open>renderAnalysis\<close>

definition generateCue :: "string \<Rightarrow> string" where
  "generateCue cat =
     (if cat = ''electricity'' then
        ''High electricity emissions indicate opportunities for energy efficiency. Consider upgrading to LED lighting, optimising HVAC systems, and sourcing renewable electricity where possible.''
      else if cat = ''transport_car'' then
        ''Car travel is a significant emitter. Encourage carpooling, promote public transport or EV options, and optimise routes to reduce distance travelled.''
      else if cat = ''transport_bus'' then
        ''Bus travel emits less per kilometre than cars but emissions can still be lowered by switching to electric or hybrid buses and optimising schedules.''
      else if cat = ''transport_train'' then
        ''Train travel is relatively low-carbon. Promote its use over flights or cars for inter-city trips to cut emissions further.''
      else if cat = ''transport_flight'' then
        ''Flights have very high emissions. Evaluate if trips can be replaced by virtual meetings or train travel, and offset necessary flights through verified programmes.''
      else if cat = ''waste'' then
        ''Waste-related emissions suggest opportunities in waste reduction, recycling and composting. Audit waste streams and engage suppliers to reduce packaging.''
      else
        ''Explore opportunities to reduce emissions in this category by analysing operations and engaging stakeholders.'')"

definition analysis_catTotals :: "measured list \<Rightarrow> jsval obj" where
  "analysis_catTotals activityData =
     foldl (\<lambda>t rec. add_to t (category rec) (emission rec)) [] activityData"

definition analysis_total :: "measured list \<Rightarrow> jsval" where
  "analysis_total activityData = reduce_add (Object_values (analysis_catTotals activityData))"

text \<open>\<open>(val / total) * 100\<close>\<close>

definition share :: "jsval \<Rightarrow> jsval \<Rightarrow> number" where
  "share val tot = mul (divide_num (to_number val) (to_number tot)) (Fin 100)"

text \<open>One item per category: the key, its percentage share and its cue.\<close>

definition renderAnalysis :: "measured list \<Rightarrow> (string \<times> number \<times> string) list" where
  "renderAnalysis activityData =
     map (\<lambda>(cat, val). (cat, share val (analysis_total activityData), generateCue cat))
       (sort_by descending (Object_entries (analysis_catTotals activityData)))"

text \<open>
  \<open>processData\<close> as a whole. For an empty array it returns at once and renders nothing.
  Otherwise it sets the emissions, sorts by date and calls the four render functions in
  turn; when one of them throws, the later ones are not called, and the result is the
  error (what was drawn before stays on the page).
\<close>

definition dashboard ::
  "activity list
     \<Rightarrow> (error + summary \<times> ((string \<times> number) list \<times> (string \<times> number) list)
                  \<times> (string list \<times> jsval option list) \<times> (string \<times> number \<times> string) list) option" where
  "dashboard activityData =
     (if activityData = [] then None
      else
        Some (case renderSummary (processData activityData) of
                Inl e \<Rightarrow> Inl e
              | Inr s \<Rightarrow>
                  (case renderBarCharts (processData activityData) of
                     Inl e \<Rightarrow> Inl e
                   | Inr bars \<Rightarrow>
                       Inr (s, bars, renderTrendChart (processData activityData),
                            renderAnalysis (processData activityData)))))"

section \<open>The calculator: one result and the saved history\<close>

subsection \<open>Emission factors and calculateEmissions\<close>

definition EMISSION_FACTORS_calculator :: "number obj" where
  "EMISSION_FACTORS_calculator =
     [(''car'', Fin (18 / 100)),
      (''bus'', Fin (11 / 100)),
      (''train'', Fin (4 / 100)),
      (''flight'', Fin (46 / 100))]"

definition ELECTRICITY_FACTOR :: number where
  "ELECTRICITY_FACTOR = Fin (82 / 100)"

definition MEAT_MEAL_FACTOR :: number where
  "MEAT_MEAL_FACTOR = Fin 15"

text \<open>
  JSON values. \<open>JSON.parse\<close> and \<open>JSON.stringify\<close> are the host's; the functions below
  take them as parameters, the parser returning \<open>None\<close> where it throws a SyntaxError.
  The members of an object are listed once per key.
\<close>

datatype json =
  JNull | JBool bool | JNum number | JStr string | JArr "json list" | JObj "(string \<times> json) list"

text \<open>
  The page, as far as saving and loading read and write it: the value stored under
  \<open>carbonHistory\<close> in the local storage, the \<open>data-result\<close> attribute of the results
  element, the alerts shown to the user, and the history section.
\<close>

datatype row = Row "json option" number number number number

datatype history_view = Blank | NoHistory | Table "row list"

record page =
  storage :: "string option"
  result :: "string option"
  alerts :: "string list"
  history :: history_view

record inputs =
  transport_distance :: string
  transport_mode :: string
  electricity :: string
  meat_meals :: string

text \<open>
  The three emissions, their sum, and the entry left on the results element for a later
  save. The texts written to the page are presentation and are left out.
\<close>

definition transportEmission :: "(string \<Rightarrow> number) \<Rightarrow> inputs \<Rightarrow> number" where
  "transportEmission parseFloat i =
     mul (or_zero (Some (parseFloat (transport_distance i))))
         (to_number (factor_of EMISSION_FACTORS_calculator (transport_mode i)))"

definition electricityEmission :: "(string \<Rightarrow> number) \<Rightarrow> inputs \<Rightarrow> number" where
  "electricityEmission parseFloat i =
     mul (or_zero (Some (parseFloat (electricity i)))) ELECTRICITY_FACTOR"

definition meatEmission :: "(string \<Rightarrow> number) \<Rightarrow> inputs \<Rightarrow> number" where
  "meatEmission parseFloat i = mul (or_zero (Some (parseFloat (meat_meals i)))) MEAT_MEAL_FACTOR"

definition totalEmission :: "(string \<Rightarrow> number) \<Rightarrow> inputs \<Rightarrow> number" where
  "totalEmission parseFloat i =
     add (add (transportEmission parseFloat i) (electricityEmission parseFloat i))
         (meatEmission parseFloat i)"

definition calculateEmissions ::
  "(string \<Rightarrow> number) \<Rightarrow> (json \<Rightarrow> string) \<Rightarrow> int \<Rightarrow> inputs \<Rightarrow> page \<Rightarrow> page" where
  "calculateEmissions parseFloat stringify now i p =
     p\<lparr>result := Some (stringify (JObj
          [(''date'', JNum (Fin (of_int now))),
           (''total'', JNum (totalEmission parseFloat i)),
           (''details'', JObj
              [(''transport'', JNum (transportEmission parseFloat i)),
               (''electricity'', JNum (electricityEmission parseFloat i)),
               (''meat'', JNum (meatEmission parseFloat i))])]))\<rparr>"

subsection \<open>Reading the stored history\<close>

fun json_truthy :: "json \<Rightarrow> bool" where
  "json_truthy JNull = False"
| "json_truthy (JBool b) = b"
| "json_truthy (JNum n) = truthy n"
| "json_truthy (JStr s) = (s \<noteq> [])"
| "json_truthy (JArr xs) = True"
| "json_truthy (JObj kvs) = True"

text \<open>
  \<open>try { history = JSON.parse(localStorage.getItem('carbonHistory')) || []; }
  catch (err) { history = []; }\<close>
  An absent item reads as \<open>null\<close>, whose text \<open>null\<close> parses to the JSON null.
\<close>

definition readHistory :: "(string \<Rightarrow> json option) \<Rightarrow> string option \<Rightarrow> json" where
  "readHistory parse item =
     (case (case item of None \<Rightarrow> Some JNull | Some blob \<Rightarrow> parse blob) of
        None \<Rightarrow> JArr []
      | Some j \<Rightarrow> if json_truthy j then j else JArr [])"

text \<open>\<open>history.length === 0\<close>\<close>

fun length_is_zero :: "json \<Rightarrow> bool" where
  "length_is_zero (JArr xs) = (xs = [])"
| "length_is_zero (JStr s) = (s = [])"
| "length_is_zero (JObj kvs) = (map_of kvs ''length'' = Some (JNum (Fin 0)))"
| "length_is_zero j = False"

subsection \<open>loadHistory\<close>

text \<open>
  A table row needs \<open>entry.total\<close> and the three members of \<open>entry.details\<close> to be
  numbers: \<open>toFixed\<close> on anything else throws a TypeError.
\<close>

fun number_member :: "json \<Rightarrow> string \<Rightarrow> error + number" where
  "number_member (JObj kvs) k = (case map_of kvs k of Some (JNum n) \<Rightarrow> Inr n | _ \<Rightarrow> Inl TypeError)"
| "number_member j k = Inl TypeError"

fun get_member :: "json \<Rightarrow> string \<Rightarrow> json option" where
  "get_member (JObj kvs) k = map_of kvs k"
| "get_member j k = None"

definition row_of :: "json \<Rightarrow> error + row" where
  "row_of entry =
     (case number_member entry ''total'' of
        Inl e \<Rightarrow> Inl e
      | Inr t \<Rightarrow>
          (case get_member entry ''details'' of
             None \<Rightarrow> Inl TypeError
           | Some details \<Rightarrow>
               (case number_member details ''transport'' of
                  Inl e \<Rightarrow> Inl e
                | Inr tr \<Rightarrow>
                    (case number_member details ''electricity'' of
                       Inl e \<Rightarrow> Inl e
                     | Inr el \<Rightarrow>
                         (case number_member details ''meat'' of
                            Inl e \<Rightarrow> Inl e
                          | Inr m \<Rightarrow> Inr (Row (get_member entry ''date'') t tr el m))))))"

fun rows_of :: "json list \<Rightarrow> error + row list" where
  "rows_of [] = Inr []"
| "rows_of (entry # rest) =
     (case row_of entry of
        Inl e \<Rightarrow> Inl e
      | Inr r \<Rightarrow> (case rows_of rest of Inl e \<Rightarrow> Inl e | Inr rs \<Rightarrow> Inr (r # rs)))"

text \<open>
  The result is the error thrown, if any, and the page as it is left. The bar chart drawn
  under the table reads the same totals and adds no failure; it is left out.
\<close>

definition loadHistory :: "(string \<Rightarrow> json option) \<Rightarrow> page \<Rightarrow> error option \<times> page" where
  "loadHistory parse p =
     (let h = readHistory parse (storage p) in
      if length_is_zero h then (None, p\<lparr>history := NoHistory\<rparr>)
      else
        (case h of
           JArr entries \<Rightarrow>
             (case rows_of entries of
                Inl e \<Rightarrow> (Some e, p\<lparr>history := Blank\<rparr>)
              | Inr rs \<Rightarrow> (None, p\<lparr>history := Table rs\<rparr>))
         | _ \<Rightarrow> (Some TypeError, p\<lparr>history := Blank\<rparr>)))"

subsection \<open>saveResult and clearHistory\<close>

definition prompt_to_calculate :: "page \<Rightarrow> error option \<times> page" where
  "prompt_to_calculate p = (None, p\<lparr>alerts := alerts p @ [''Please calculate your emissions first.'']\<rparr>)"

definition saveResult ::
  "(string \<Rightarrow> json option) \<Rightarrow> (json \<Rightarrow> string) \<Rightarrow> page \<Rightarrow> error option \<times> page" where
  "saveResult parse stringify p =
     (case result p of
        None \<Rightarrow> prompt_to_calculate p
      | Some data \<Rightarrow>
          if data = [] then prompt_to_calculate p
          else
            (case parse data of
               None \<Rightarrow> (Some SyntaxError, p)
             | Some entry \<Rightarrow>
                 (case readHistory parse (storage p) of
                    JArr entries \<Rightarrow>
                      (case loadHistory parse
                              (p\<lparr>storage := Some (stringify (JArr (entries @ [entry])))\<rparr>) of
                         (Some e, p') \<Rightarrow> (Some e, p')
                       | (None, p') \<Rightarrow>
                           (None, p'\<lparr>alerts := alerts p' @
                                     [''Your result has been saved to your dashboard!'']\<rparr>))
                  | _ \<Rightarrow> (Some TypeError, p))))"

definition clearHistory :: "bool \<Rightarrow> (string \<Rightarrow> json option) \<Rightarrow> page \<Rightarrow> error option \<times> page" where
  "clearHistory confirmed parse p =
     (if \<not> confirmed then (None, p) else loadHistory parse (p\<lparr>storage := None\<rparr>))"

section \<open>Vocabulary of the properties\<close>

subsection \<open>Reading totals\<close>

text \<open>The rational behind a finite number, \<open>0\<close> for the others.\<close>

fun the_fin :: "number \<Rightarrow> rat" where
  "the_fin (Fin a) = a"
| "the_fin x = 0"

text \<open>The rational a value stands for, \<open>0\<close> when it is not a finite number.\<close>

definition the_val :: "jsval \<Rightarrow> rat" where
  "the_val v = the_fin (to_number v)"

definition finite_val :: "jsval \<Rightarrow> bool" where
  "finite_val v = (case v of Num n \<Rightarrow> isFinite n | NonNum \<Rightarrow> False)"

text \<open>The sum of the values of a totals object, each entry counted once.\<close>

definition obj_sum :: "jsval obj \<Rightarrow> rat" where
  "obj_sum obj = sum_list (map (\<lambda>e. the_val (snd e)) obj)"

definition all_finite :: "jsval obj \<Rightarrow> bool" where
  "all_finite obj = list_all (\<lambda>e. finite_val (snd e)) obj"

text \<open>The value a totals object holds under a key, \<open>0\<close> when the key is absent.\<close>

definition value_at :: "jsval obj \<Rightarrow> string \<Rightarrow> rat" where
  "value_at obj k = (case obj_get obj k of Some v \<Rightarrow> the_val v | None \<Rightarrow> 0)"

text \<open>The sum of the emissions of a list of records, each record counted once.\<close>

definition emission_sum :: "measured list \<Rightarrow> rat" where
  "emission_sum ms = sum_list (map (\<lambda>r. the_fin (emission r)) ms)"

text \<open>
  A dataset is valid for the sums when every amount parsed to a finite number; a text that
  is not a number parses to NaN.
\<close>

definition finite_amounts :: "'a activity_scheme list \<Rightarrow> bool" where
  "finite_amounts data = list_all (\<lambda>r. isFinite (amount r)) data"

definition nonneg_amounts :: "'a activity_scheme list \<Rightarrow> bool" where
  "nonneg_amounts data = list_all (\<lambda>r. 0 \<le> the_fin (amount r)) data"

text \<open>
  The names of a dataset are plain when none of them is the name of a property that a plain
  object inherits: its categories, or its departments and categories.
\<close>

definition plain_categories :: "'a activity_scheme list \<Rightarrow> bool" where
  "plain_categories data = list_all (\<lambda>r. \<not> inherited (category r)) data"

definition plain_names :: "'a activity_scheme list \<Rightarrow> bool" where
  "plain_names data =
     list_all (\<lambda>r. \<not> inherited (department r) \<and> \<not> inherited (category r)) data"

text \<open>A number, or a value, that is not below zero: NaN and what is not a number count.\<close>

fun not_negative :: "number \<Rightarrow> bool" where
  "not_negative (Fin a) = (0 \<le> a)"
| "not_negative NInf = False"
| "not_negative x = True"

definition not_negative_val :: "jsval \<Rightarrow> bool" where
  "not_negative_val v = not_negative (to_number v)"

subsection \<open>Rankings\<close>

text \<open>A list of entries is in descending order of its values.\<close>

definition descending_values :: "(string \<times> jsval) list \<Rightarrow> bool" where
  "descending_values es = sorted_wrt (\<lambda>a b. the_val (snd b) \<le> the_val (snd a)) es"

text \<open>
  A rearrangement keeps ties in place: for every value, the entries with that value stand
  in the same order as before.
\<close>

definition keeps_ties :: "(string \<times> jsval) list \<Rightarrow> (string \<times> jsval) list \<Rightarrow> bool" where
  "keeps_ties es sorted_es =
     list_all (\<lambda>v. filter (\<lambda>e. snd e = v) sorted_es = filter (\<lambda>e. snd e = v) es) (map snd es)"

text \<open>The elements of a list in the order of their first occurrence, each once.\<close>

fun first_occurrences :: "'a list \<Rightarrow> 'a list" where
  "first_occurrences [] = []"
| "first_occurrences (x # xs) = x # filter (\<lambda>y. y \<noteq> x) (first_occurrences xs)"

text \<open>What IEEE division by a zero total, times \<open>100\<close>, gives for a category's sum.\<close>

definition share_of_zero_total :: "number \<Rightarrow> number" where
  "share_of_zero_total val =
     (if val = NaN \<or> val = Fin 0 then NaN else if positive val then PInf else NInf)"

subsection \<open>Worked examples\<close>

text \<open>
  A parsed row with a department, a category, a date (time value, year, month) and an
  amount.
\<close>

definition mk_activity :: "string \<Rightarrow> string \<Rightarrow> int \<Rightarrow> int \<Rightarrow> nat \<Rightarrow> number \<Rightarrow> activity" where
  "mk_activity dept cat t y m amt =
     \<lparr>props = [(''department'', dept), (''category'', cat)],
      date = \<lparr>getTime = t, getFullYear = y, getMonth = m\<rparr>,
      amount = amt, category = cat\<rparr>"

text \<open>
  Car travel on 6 January 2024, an unknown category on 1 February 2024 and electricity on
  5 January 2024.
\<close>

definition sample_data :: "activity list" where
  "sample_data =
     [mk_activity ''Ops'' ''transport_car'' 1704499200000 2024 0 (Fin 50),
      mk_activity ''Lab'' ''paper'' 1706745600000 2024 1 (Fin 10),
      mk_activity ''Ops'' ''electricity'' 1704412800000 2024 0 (Fin 100)]"

text \<open>Two departments and two categories with the same emission, 41 each.\<close>

definition tie_data :: "activity list" where
  "tie_data =
     [mk_activity ''B'' ''waste'' 1704412800000 2024 0 (Fin 41),
      mk_activity ''A'' ''electricity'' 1704499200000 2024 0 (Fin 50)]"

text \<open>
  Four departments with the same emission, not in the order of their dates: \<open>10\<close> on
  4 January 2024, \<open>B\<close> on the 5th, \<open>2\<close> on the 6th and \<open>A\<close> on the 7th.
\<close>

definition ranking_data :: "activity list" where
  "ranking_data =
     [mk_activity ''A'' ''waste'' 1704585600000 2024 0 (Fin 41),
      mk_activity ''2'' ''waste'' 1704499200000 2024 0 (Fin 41),
      mk_activity ''10'' ''waste'' 1704326400000 2024 0 (Fin 41),
      mk_activity ''B'' ''waste'' 1704412800000 2024 0 (Fin 41)]"

text \<open>
  Datasets outside the amended claims: a department named \<open>__proto__\<close>, an amount that
  is not a number, and records of an unknown category that is an inherited name, or that
  come with the department \<open>__proto__\<close> or with an amount that is not a number.
\<close>

definition proto_department_data :: "activity list" where
  "proto_department_data =
     [mk_activity ''__proto__'' ''waste'' 1704412800000 2024 0 (Fin 41),
      mk_activity ''Ops'' ''electricity'' 1704499200000 2024 0 (Fin 100)]"

definition nan_amount_data :: "activity list" where
  "nan_amount_data =
     [mk_activity ''Ops'' ''electricity'' 1704412800000 2024 0 NaN,
      mk_activity ''Ops'' ''electricity'' 1704499200000 2024 0 (Fin 100)]"

definition proto_category_data :: "activity list" where
  "proto_category_data =
     [mk_activity ''Ops'' ''__proto__'' 1704412800000 2024 0 (Fin 10),
      mk_activity ''Ops'' ''electricity'' 1704499200000 2024 0 (Fin 100)]"

definition unknown_proto_department_data :: "activity list" where
  "unknown_proto_department_data =
     [mk_activity ''__proto__'' ''paper'' 1704412800000 2024 0 (Fin 10),
      mk_activity ''Ops'' ''electricity'' 1704499200000 2024 0 (Fin 100)]"

definition unknown_nan_data :: "activity list" where
  "unknown_nan_data =
     [mk_activity ''Ops'' ''paper'' 1704412800000 2024 0 NaN,
      mk_activity ''Ops'' ''paper'' 1704499200000 2024 0 (Fin 10)]"

text \<open>Emissions of 82 and -82, as the rows \<open>...,electricity,kWh,100\<close> and \<open>...,waste,kg,-82\<close> give.\<close>

definition cancelling_data :: "activity list" where
  "cancelling_data =
     [mk_activity ''Ops'' ''electricity'' 1704412800000 2024 0 (Fin 100),
      mk_activity ''Ops'' ''waste'' 1704499200000 2024 0 (Fin (- 82))]"

definition unknown_only_data :: "activity list" where
  "unknown_only_data =
     [mk_activity ''Lab'' ''paper'' 1704412800000 2024 0 (Fin 10),
      mk_activity ''Ops'' ''water'' 1704499200000 2024 0 (Fin 3)]"

text \<open>
  The answers of a host's date and number parsers on the texts of the examples; every other
  text is an invalid date, or not a number.
\<close>

definition sample_Date_parse :: "string \<Rightarrow> jsdate option" where
  "sample_Date_parse s =
     map_of
       [(''2024-01-05'', \<lparr>getTime = 1704412800000, getFullYear = 2024, getMonth = 0\<rparr>),
        (''2024-01-06'', \<lparr>getTime = 1704499200000, getFullYear = 2024, getMonth = 0\<rparr>)] s"

definition sample_parseFloat :: "string \<Rightarrow> number" where
  "sample_parseFloat s =
     (case map_of [(''100'', Fin 100), (''50'', Fin 50)] s of Some n \<Rightarrow> n | None \<Rightarrow> NaN)"

definition sample_header :: "string list" where
  "sample_header = [''date'', ''department'', ''category'', ''unit'', ''amount'']"

text \<open>A CSV text whose second data line has an invalid date.\<close>

definition sample_text :: string where
  "sample_text =
     ''Date,Department,Category,Unit,Amount'' @ [CHR 0x0D, CHR 0x0A] @
     ''2024-01-06,Ops,transport_car,km,50'' @ [CHR 0x0A] @
     ''2024-13-45,Ops,waste,kg,100'' @ [CHR 0x0A] @
     ''2024-01-05,Ops,Electricity,kWh,100'' @ [CHR 0x0A]"

text \<open>A CSV text that opens with a comment line, before its header.\<close>

definition commented_text :: string where
  "commented_text =
     ''# Day, Date, Category'' @ [CHR 0x0A] @ ''date,department,category'' @ [CHR 0x0A] @
     ''Fri,2024-01-05,Waste'' @ [CHR 0x0A]"

text \<open>
  A saved entry, and the host's JSON functions on the values of the examples, with
  shortened texts standing for the serialised values.
\<close>

definition sample_entry :: json where
  "sample_entry =
     JObj [(''date'', JNum (Fin 1704412800000)),
           (''total'', JNum (Fin (1234 / 100))),
           (''details'', JObj [(''transport'', JNum (Fin 5)),
                              (''electricity'', JNum (Fin 4)),
                              (''meat'', JNum (Fin (334 / 100)))])]"

definition sample_parse :: "string \<Rightarrow> json option" where
  "sample_parse s =
     map_of [(''[]'', JArr []),
             (''e'', sample_entry),
             (''[e]'', JArr [sample_entry]),
             (''[e,e]'', JArr [sample_entry, sample_entry])] s"

definition sample_stringify :: "json \<Rightarrow> string" where
  "sample_stringify j =
     (if j = JArr [] then ''[]''
      else if j = sample_entry then ''e''
      else if j = JArr [sample_entry] then ''[e]''
      else if j = JArr [sample_entry, sample_entry] then ''[e,e]''
      else ''?'')"

text \<open>A page with one saved entry and a calculated result; a page whose store is corrupt.\<close>

definition sample_page :: page where
  "sample_page = \<lparr>storage = Some ''[e]'', result = Some ''e'', alerts = [], history = Blank\<rparr>"

definition corrupt_page :: page where
  "corrupt_page = \<lparr>storage = Some ''{bad'', result = Some ''e'', alerts = [], history = Blank\<rparr>"

section \<open>Properties of the model\<close>

subsection \<open>Numbers and values\<close>

lemma isFinite_iff: "isFinite x \<longleftrightarrow> (\<exists>a. x = Fin a)"
  by (cases x) auto

lemma finite_val_iff: "finite_val v \<longleftrightarrow> (\<exists>a. v = Num (Fin a))"
  by (cases v) (auto simp: finite_val_def isFinite_iff)

lemma the_val_Num: "the_val (Num (Fin a)) = a"
  by (simp add: the_val_def)

lemma plus_finite: "plus x y = Num (Fin c) \<Longrightarrow> finite_val x \<and> finite_val y"
proof (cases x)
  case NonNum
  assume "plus x y = Num (Fin c)"
  then show ?thesis using NonNum by simp
next
  case (Num a)
  assume h: "plus x y = Num (Fin c)"
  show ?thesis
  proof (cases y)
    case NonNum
    then show ?thesis using h Num by simp
  next
    case (Num b)
    have "add a b = Fin c" using h \<open>x = Num a\<close> Num by simp
    then have "isFinite a \<and> isFinite b" by (cases a; cases b) auto
    then show ?thesis using \<open>x = Num a\<close> Num by (simp add: finite_val_def)
  qed
qed

lemma foldl_plus_finite:
  "foldl plus x vs = Num (Fin b) \<Longrightarrow> finite_val x \<and> (\<forall>v \<in> set vs. finite_val v)"
proof (induction vs arbitrary: x)
  case Nil
  then show ?case by (simp add: finite_val_iff)
next
  case (Cons v vs)
  have "finite_val (plus x v) \<and> (\<forall>v \<in> set vs. finite_val v)"
    by (rule Cons.IH) (use Cons.prems in simp)
  moreover from this obtain c where "plus x v = Num (Fin c)" by (auto simp: finite_val_iff)
  ultimately show ?case using plus_finite[of x v c] by simp
qed

lemma not_negative_add: "not_negative x \<Longrightarrow> not_negative y \<Longrightarrow> not_negative (add x y)"
  by (cases x; cases y) auto

lemma not_negative_plus:
  "not_negative_val x \<Longrightarrow> not_negative_val y \<Longrightarrow> not_negative_val (plus x y)"
  by (cases x; cases y) (auto simp: not_negative_val_def not_negative_add)

subsection \<open>Sorting\<close>

lemma mset_insert_by: "mset (insert_by cmp x ys) = add_mset x (mset ys)"
  by (induction ys) auto

lemma mset_sort_by: "mset (sort_by cmp xs) = mset xs"
  by (induction xs) (auto simp: sort_by_def mset_insert_by)

lemma set_sort_by: "set (sort_by cmp xs) = set xs"
  by (metis mset_sort_by set_mset_mset)

lemma insert_by_insort_key:
  "\<forall>y \<in> set ys. positive (cmp x y) \<longleftrightarrow> f y < f x \<Longrightarrow> insert_by cmp x ys = insort_key f x ys"
  by (induction ys) (auto simp: not_le)

lemma sort_by_sort_key:
  fixes f :: "'a \<Rightarrow> 'b::linorder"
  assumes "\<forall>x \<in> set xs. \<forall>y \<in> set xs. positive (cmp x y) \<longleftrightarrow> f y < f x"
  shows "sort_by cmp xs = sort_key f xs"
  using assms
proof (induction xs)
  case Nil
  then show ?case by (simp add: sort_by_def)
next
  case (Cons x xs)
  have ih: "sort_by cmp xs = sort_key f xs" using Cons by simp
  have "insert_by cmp x (sort_key f xs) = insort_key f x (sort_key f xs)"
    by (rule insert_by_insort_key) (use Cons.prems in simp)
  then show ?case using ih by (simp add: sort_by_def sort_key_def)
qed

lemma insort_key_map:
  "map g (insort_key (\<lambda>x. f (g x)) a xs) = insort_key f (g a) (map g xs)"
  by (induction xs) auto

lemma sort_key_map: "map g (sort_key (\<lambda>x. f (g x)) xs) = sort_key f (map g xs)"
  by (induction xs) (simp_all add: insort_key_map)

subsection \<open>Inherited names\<close>

lemma inherited_proto: "inherited ''__proto__''"
  by (simp add: inherited_def Object_prototype_names_def)

lemma not_inherited_not_proto: "\<not> inherited k \<Longrightarrow> k \<noteq> ''__proto__''"
  using inherited_proto by auto

lemma assign_plain: "k \<noteq> ''__proto__'' \<Longrightarrow> assign t k v = obj_set t k v"
  by (simp add: assign_def)

lemma read_prop_plain: "\<not> inherited k \<Longrightarrow> read_prop t k = obj_get t k"
  by (simp add: read_prop_def split: option.splits)

lemma factor_of_plain:
  "\<not> inherited k \<Longrightarrow> factor_of table k = Num (or_zero (obj_get table k))"
  by (simp add: factor_of_def split: option.splits)

lemma inherited_no_dash: "inherited k \<Longrightarrow> CHR ''-'' \<notin> set k"
  by (auto simp: inherited_def Object_prototype_names_def)

subsection \<open>Objects and running totals\<close>

lemma obj_get_obj_set: "obj_get (obj_set t k v) k' = (if k' = k then Some v else obj_get t k')"
  by (induction t) (auto simp: obj_get_def)

lemma obj_set_twice: "obj_set (obj_set t k a) k b = obj_set t k b"
  by (induction t) auto

lemma set_obj_set: "set (obj_set t k v) \<subseteq> insert (k, v) (set t)"
  by (induction t) (auto split: if_splits)

lemma set_assign: "set (assign t k v) \<subseteq> insert (k, v) (set t)"
  using set_obj_set[of t k v] by (auto simp: assign_def)

lemma read_prop_cases: "read_prop t k = Some v \<Longrightarrow> v = NonNum \<or> (k, v) \<in> set t"
  by (auto simp: read_prop_def obj_get_def split: option.splits if_splits dest: map_of_SomeD)

lemma add_to_reset_eq: "add_to_reset t k e = add_to t k e"
proof (cases "k = ''__proto__''")
  case True
  then show ?thesis by (simp add: add_to_reset_def add_to_def assign_def Let_def)
next
  case False
  show ?thesis
  proof (cases "read_prop t k")
    case None
    then show ?thesis
      using False
      by (simp add: add_to_reset_def add_to_def assign_def Let_def read_prop_def obj_get_obj_set
          obj_set_twice split: option.splits if_splits)
  next
    case (Some v)
    show ?thesis
    proof (cases v)
      case NonNum
      then show ?thesis using Some by (simp add: add_to_reset_def add_to_def Let_def)
    next
      case (Num n)
      then show ?thesis
        using Some False
        by (simp add: add_to_reset_def add_to_def assign_def Let_def read_prop_def obj_get_obj_set
            obj_set_twice)
    qed
  qed
qed

lemma obj_sum_obj_set: "obj_sum (obj_set t k v) = obj_sum t - value_at t k + the_val v"
  by (induction t) (auto simp: obj_sum_def value_at_def obj_get_def)

lemma all_finite_obj_set: "all_finite t \<Longrightarrow> finite_val v \<Longrightarrow> all_finite (obj_set t k v)"
  by (induction t) (auto simp: all_finite_def)

lemma all_finite_get: "all_finite t \<Longrightarrow> obj_get t k = Some v \<Longrightarrow> finite_val v"
  by (auto simp: all_finite_def obj_get_def list_all_iff dest!: map_of_SomeD)

lemma or_zero_val_finite: "all_finite t \<Longrightarrow> or_zero_val (obj_get t k) = Num (Fin (value_at t k))"
  by (cases "obj_get t k") (auto simp: value_at_def finite_val_iff the_val_def dest!: all_finite_get)

lemma add_to_plain:
  assumes "all_finite t" "isFinite e" "\<not> inherited k"
  shows "add_to t k e = obj_set t k (Num (Fin (value_at t k + the_fin e)))"
  using assms
  by (auto simp: add_to_def read_prop_plain assign_plain not_inherited_not_proto or_zero_val_finite
      isFinite_iff)

lemma add_to_finite:
  assumes "all_finite t" "isFinite e" "\<not> inherited k"
  shows "all_finite (add_to t k e)" "obj_sum (add_to t k e) = obj_sum t + the_fin e"
    "value_at (add_to t k e) k' = value_at t k' + (if k' = k then the_fin e else 0)"
  unfolding add_to_plain[OF assms]
  by (auto simp: obj_sum_obj_set value_at_def obj_get_obj_set the_val_Num finite_val_iff
      intro!: all_finite_obj_set[OF assms(1)] split: option.splits)

lemma fold_add_to:
  assumes "all_finite t" "\<forall>r \<in> set ms. isFinite (emission r)" "\<forall>r \<in> set ms. \<not> inherited (key r)"
  shows "all_finite (foldl (\<lambda>t r. add_to t (key r) (emission r)) t ms) \<and>
         obj_sum (foldl (\<lambda>t r. add_to t (key r) (emission r)) t ms) = obj_sum t + emission_sum ms \<and>
         (\<forall>k. value_at (foldl (\<lambda>t r. add_to t (key r) (emission r)) t ms) k
               = value_at t k + emission_sum (filter (\<lambda>r. key r = k) ms))"
  using assms
proof (induction ms arbitrary: t)
  case Nil
  then show ?case by (simp add: emission_sum_def)
next
  case (Cons r ms)
  have fin: "isFinite (emission r)" and pl: "\<not> inherited (key r)" using Cons.prems by simp_all
  note step = add_to_finite[OF Cons.prems(1) fin pl]
  have ih: "all_finite (foldl (\<lambda>t r. add_to t (key r) (emission r)) (add_to t (key r) (emission r)) ms) \<and>
         obj_sum (foldl (\<lambda>t r. add_to t (key r) (emission r)) (add_to t (key r) (emission r)) ms)
           = obj_sum (add_to t (key r) (emission r)) + emission_sum ms \<and>
         (\<forall>k. value_at (foldl (\<lambda>t r. add_to t (key r) (emission r)) (add_to t (key r) (emission r)) ms) k
               = value_at (add_to t (key r) (emission r)) k + emission_sum (filter (\<lambda>r. key r = k) ms))"
    by (rule Cons.IH) (use step(1) Cons.prems in auto)
  show ?case using ih step(2,3) by (simp add: emission_sum_def)
qed

lemma fold_total:
  assumes "\<forall>r \<in> set ms. isFinite (emission r)"
  shows "foldl (\<lambda>sum rec. add sum (emission rec)) (Fin a) ms = Fin (a + emission_sum ms)"
  using assms
proof (induction ms arbitrary: a)
  case Nil
  then show ?case by (simp add: emission_sum_def)
next
  case (Cons r ms)
  then obtain e where e: "emission r = Fin e" by (auto simp: isFinite_iff)
  have "foldl (\<lambda>sum rec. add sum (emission rec)) (Fin (a + e)) ms = Fin (a + e + emission_sum ms)"
    using Cons by simp
  then show ?case using e by (simp add: emission_sum_def add.assoc)
qed

lemma mset_Object_entries: "mset (Object_entries obj) = mset obj"
  by (simp add: Object_entries_def)

lemma set_Object_entries: "set (Object_entries obj) = set obj"
  using mset_Object_entries[of obj] by (metis set_mset_mset)

lemma set_Object_keys: "set (Object_keys obj) = set (map fst obj)"
  by (simp add: Object_keys_def set_Object_entries)

lemma foldl_plus_Fin:
  "\<forall>v \<in> set vs. finite_val v \<Longrightarrow>
     foldl plus (Num (Fin a)) vs = Num (Fin (a + sum_list (map the_val vs)))"
proof (induction vs arbitrary: a)
  case Nil
  then show ?case by simp
next
  case (Cons v vs)
  then obtain b where b: "v = Num (Fin b)" by (auto simp: finite_val_iff)
  show ?case using Cons b by (simp add: add.assoc the_val_Num)
qed

lemma sum_Object_values: "sum_list (map the_val (Object_values obj)) = obj_sum obj"
proof -
  have "sum_list (map the_val (Object_values obj))
          = sum_mset (image_mset (\<lambda>e. the_val (snd e)) (mset (Object_entries obj)))"
    by (simp add: Object_values_def sum_mset_sum_list[symmetric] comp_def)
  also have "\<dots> = obj_sum obj"
    by (simp add: mset_Object_entries obj_sum_def sum_mset_sum_list[symmetric])
  finally show ?thesis .
qed

lemma reduce_add_values:
  assumes "all_finite obj"
  shows "reduce_add (Object_values obj) = Num (Fin (obj_sum obj))"
proof -
  have fin: "\<forall>v \<in> set (Object_values obj). finite_val v"
    using assms by (auto simp: Object_values_def set_Object_entries all_finite_def list_all_iff)
  show ?thesis using foldl_plus_Fin[OF fin, of 0] by (simp add: reduce_add_def sum_Object_values)
qed

lemma reduce_add_finite:
  assumes "reduce_add (Object_values obj) = Num (Fin b)"
  shows "all_finite obj \<and> obj_sum obj = b"
proof -
  have "\<forall>v \<in> set (Object_values obj). finite_val v"
    using foldl_plus_finite[OF assms[unfolded reduce_add_def]] by simp
  then have af: "all_finite obj"
    by (auto simp: Object_values_def set_Object_entries all_finite_def list_all_iff)
  show ?thesis using af reduce_add_values[OF af] assms by simp
qed

lemma table_factor: "\<exists>f. 0 \<le> f \<and> or_zero (obj_get EMISSION_FACTORS c) = Fin f"
proof -
  have "isFinite (or_zero (obj_get EMISSION_FACTORS c)) \<and>
        0 \<le> the_fin (or_zero (obj_get EMISSION_FACTORS c))"
    by (simp add: obj_get_def EMISSION_FACTORS_def)
  then show ?thesis by (auto simp: isFinite_iff)
qed

lemma set_emission_finite:
  assumes "isFinite (amount r)" "\<not> inherited (category r)"
  shows "isFinite (emission (set_emission r))"
  using assms table_factor[of "category r"]
  by (auto simp: set_emission_def factor_of_plain isFinite_iff)

lemma emission_not_negative:
  assumes "isFinite (amount r)" "0 \<le> the_fin (amount r)"
  shows "not_negative (emission (set_emission r))"
proof -
  obtain a where a: "amount r = Fin a" "0 \<le> a" using assms by (auto simp: isFinite_iff)
  show ?thesis
  proof (cases "inherited (category r)")
    case False
    then show ?thesis
      using a table_factor[of "category r"] by (auto simp: set_emission_def factor_of_plain)
  next
    case True
    obtain f where "0 \<le> f" "or_zero (obj_get EMISSION_FACTORS (category r)) = Fin f"
      using table_factor by blast
    then show ?thesis
      using a by (auto simp: set_emission_def factor_of_def split: option.splits)
  qed
qed

lemma names_set_emission [simp]:
  "category (set_emission r) = category r" "department (set_emission r) = department r"
  "date (set_emission r) = date r"
  by (simp_all add: set_emission_def department_def)

lemma mset_processData: "mset (processData d) = mset (map set_emission d)"
  by (simp add: processData_def mset_sort_by)

lemma set_processData: "set (processData d) = set_emission ` set d"
  using mset_processData[of d] by (metis list.set_map set_mset_mset)

lemma processData_finite:
  "finite_amounts d \<Longrightarrow> plain_categories d \<Longrightarrow> \<forall>r \<in> set (processData d). isFinite (emission r)"
  by (auto simp: set_processData finite_amounts_def plain_categories_def list_all_iff
      intro: set_emission_finite)

lemma processData_plain:
  "plain_categories d \<Longrightarrow> \<forall>r \<in> set (processData d). \<not> inherited (category r)"
  "plain_names d \<Longrightarrow> \<forall>r \<in> set (processData d). \<not> inherited (department r)"
  by (auto simp: set_processData plain_categories_def plain_names_def list_all_iff)

lemma plain_names_categories: "plain_names d \<Longrightarrow> plain_categories d"
  by (simp add: plain_names_def plain_categories_def list_all_iff)

lemma processData_sort_key:
  "processData d = sort_key (\<lambda>r. getTime (date r)) (map set_emission d)"
proof (cases "d = []")
  case True
  then show ?thesis by (simp add: processData_def)
next
  case False
  have "sort_by by_date (map set_emission d) = sort_key (\<lambda>r. getTime (date r)) (map set_emission d)"
    by (rule sort_by_sort_key) (auto simp: positive_def by_date_def sub_def)
  then show ?thesis using False by (simp add: processData_def)
qed

lemma all_finite_Nil: "all_finite []"
  by (simp add: all_finite_def)

lemma obj_sum_Nil: "obj_sum [] = 0"
  by (simp add: obj_sum_def)

lemma add_to_not_negative:
  assumes "\<forall>x \<in> set t. not_negative_val (snd x)" "not_negative e"
  shows "\<forall>x \<in> set (add_to t k e). not_negative_val (snd x)"
proof -
  have old: "not_negative_val (or_zero_val (read_prop t k))"
  proof (cases "read_prop t k")
    case None
    then show ?thesis by (simp add: not_negative_val_def)
  next
    case (Some v)
    then have "v = NonNum \<or> (k, v) \<in> set t" by (rule read_prop_cases)
    then have "not_negative_val v" using assms(1) by (auto simp: not_negative_val_def)
    then show ?thesis using Some by (cases v) (auto simp: not_negative_val_def)
  qed
  have "not_negative_val (plus (or_zero_val (read_prop t k)) (Num e))"
    by (rule not_negative_plus[OF old]) (simp add: not_negative_val_def assms(2))
  then show ?thesis
    using assms(1) set_assign[of t k "plus (or_zero_val (read_prop t k)) (Num e)"]
    by (auto simp: add_to_def)
qed

lemma fold_not_negative:
  assumes "\<forall>x \<in> set t. not_negative_val (snd x)" "\<forall>r \<in> set ms. not_negative (emission r)"
  shows "\<forall>x \<in> set (foldl (\<lambda>t r. add_to t (key r) (emission r)) t ms). not_negative_val (snd x)"
  using assms
proof (induction ms arbitrary: t)
  case Nil
  then show ?case by simp
next
  case (Cons r ms)
  have "\<forall>x \<in> set (add_to t (key r) (emission r)). not_negative_val (snd x)"
    by (rule add_to_not_negative) (use Cons.prems in simp_all)
  then show ?case using Cons.IH[of "add_to t (key r) (emission r)"] Cons.prems(2) by simp
qed

subsection \<open>Ranking by descending value\<close>

lemma positive_descending:
  "finite_val (snd x) \<Longrightarrow> finite_val (snd y) \<Longrightarrow>
     positive (descending x y) \<longleftrightarrow> - the_val (snd y) < - the_val (snd x)"
  by (auto simp: finite_val_iff the_val_def positive_def descending_def sub_def split: if_splits)

lemma sort_descending_sort_key:
  assumes "all_finite es"
  shows "sort_by descending es = sort_key (\<lambda>e. - the_val (snd e)) es"
  by (rule sort_by_sort_key) (use assms in \<open>auto simp: all_finite_def list_all_iff positive_descending\<close>)

lemma sort_descending_props:
  assumes "all_finite es"
  shows "descending_values (sort_by descending es)" "keeps_ties es (sort_by descending es)"
proof -
  let ?f = "\<lambda>e::string \<times> jsval. - the_val (snd e)"
  have eq: "sort_by descending es = sort_key ?f es"
    by (rule sort_descending_sort_key[OF assms])
  have "sorted (map ?f (sort_key ?f es))" by (rule sorted_sort_key)
  then show "descending_values (sort_by descending es)"
    by (simp add: eq descending_values_def sorted_map)
  have fin: "\<forall>e \<in> set es. finite_val (snd e)"
    using assms by (simp add: all_finite_def list_all_iff)
  have "filter (\<lambda>e. snd e = v) (sort_key ?f es) = filter (\<lambda>e. snd e = v) es" if v: "v \<in> snd ` set es" for v
  proof -
    obtain a where a: "v = Num (Fin a)" using v fin by (auto simp: finite_val_iff)
    have c1: "filter (\<lambda>e. snd e = v) (sort_key ?f es) = filter (\<lambda>e. ?f e = - a) (sort_key ?f es)"
      by (rule filter_cong) (use fin a in \<open>auto simp: finite_val_iff the_val_def\<close>)
    have c2: "filter (\<lambda>e. snd e = v) es = filter (\<lambda>e. ?f e = - a) es"
      by (rule filter_cong) (use fin a in \<open>auto simp: finite_val_iff the_val_def\<close>)
    show ?thesis unfolding c1 c2 by (rule sort_key_stable)
  qed
  then show "keeps_ties es (sort_by descending es)"
    by (simp add: keeps_ties_def eq list_all_iff)
qed

lemma all_finite_Object_entries: "all_finite obj \<Longrightarrow> all_finite (Object_entries obj)"
  by (simp add: all_finite_def list_all_iff set_Object_entries)

lemma first_is_top:
  assumes "descending_values s" "keeps_ties es s" "mset s = mset es" "first_entry s = Some e"
  shows "(\<forall>x \<in> set es. the_val (snd x) \<le> the_val (snd e)) \<and>
         first_entry (filter (\<lambda>x. snd x = snd e) es) = Some e"
proof -
  obtain rest where s: "s = e # rest"
    using assms(4) by (auto simp: first_entry_def split: list.splits)
  have set_eq: "set s = set es" using assms(3) by (metis set_mset_mset)
  have max: "\<forall>x \<in> set es. the_val (snd x) \<le> the_val (snd e)"
    using assms(1) set_eq[symmetric] by (auto simp: s descending_values_def)
  have "e \<in> set es" using set_eq s by auto
  then have "filter (\<lambda>x. snd x = snd e) s = filter (\<lambda>x. snd x = snd e) es"
    using assms(2) by (auto simp: keeps_ties_def list_all_iff)
  then have "filter (\<lambda>x. snd x = snd e) es = e # filter (\<lambda>x. snd x = snd e) rest"
    by (simp add: s)
  then show ?thesis using max by (simp add: first_entry_def)
qed

lemma first_entry_finite:
  assumes "all_finite es"
  shows "formats (first_entry (sort_by descending es))"
proof (cases "sort_by descending es")
  case Nil
  then show ?thesis by (simp add: formats_def first_entry_def)
next
  case (Cons e rest)
  then have "e \<in> set es" using set_sort_by[of descending es] by auto
  then have "finite_val (snd e)" using assms by (simp add: all_finite_def list_all_iff)
  then show ?thesis using Cons by (auto simp: formats_def first_entry_def finite_val_iff)
qed

subsection \<open>Order of keys\<close>

lemma keys_obj_set:
  "map fst (obj_set t k v) = (if k \<in> set (map fst t) then map fst t else map fst t @ [k])"
  by (induction t) force+

lemma keys_assign:
  "map fst (assign t k v)
     = (if k = ''__proto__'' \<or> k \<in> set (map fst t) then map fst t else map fst t @ [k])"
  by (simp add: assign_def keys_obj_set)

lemma append_new_first_occurrences:
  "foldl (\<lambda>ks k. if k \<in> set ks then ks else ks @ [k]) ks xs
     = ks @ filter (\<lambda>x. x \<notin> set ks) (first_occurrences xs)"
proof (induction xs arbitrary: ks)
  case Nil
  then show ?case by simp
next
  case (Cons x xs)
  show ?case
  proof (cases "x \<in> set ks")
    case True
    have "filter (\<lambda>y. y \<notin> set ks) (filter (\<lambda>y. y \<noteq> x) (first_occurrences xs))
            = filter (\<lambda>y. y \<notin> set ks) (first_occurrences xs)"
      unfolding filter_filter by (rule filter_cong) (use True in auto)
    then show ?thesis using True Cons.IH[of ks] by simp
  next
    case False
    have "filter (\<lambda>y. y \<notin> set (ks @ [x])) (first_occurrences xs)
            = filter (\<lambda>y. y \<notin> set ks) (filter (\<lambda>y. y \<noteq> x) (first_occurrences xs))"
      unfolding filter_filter by (rule filter_cong) auto
    then show ?thesis using False Cons.IH[of "ks @ [x]"] by simp
  qed
qed

lemma keys_fold_add_to:
  "map fst (foldl (\<lambda>t r. add_to t (key r) (emission r)) t ms)
     = foldl (\<lambda>ks k. if k \<in> set ks then ks else ks @ [k]) (map fst t)
         (filter (\<lambda>k. k \<noteq> ''__proto__'') (map key ms))"
  by (induction ms arbitrary: t) (simp_all add: add_to_def keys_assign)

lemma keys_first_occurrences:
  "map fst (foldl (\<lambda>t r. add_to t (key r) (emission r)) [] ms)
     = first_occurrences (filter (\<lambda>k. k \<noteq> ''__proto__'') (map key ms))"
  by (simp add: keys_fold_add_to append_new_first_occurrences)

lemma keys_first_occurrences_plain:
  assumes "\<forall>r \<in> set ms. \<not> inherited (key r)"
  shows "map fst (foldl (\<lambda>t r. add_to t (key r) (emission r)) [] ms) = first_occurrences (map key ms)"
proof -
  have "filter (\<lambda>k. k \<noteq> ''__proto__'') (map key ms) = map key ms"
    using assms not_inherited_not_proto by (auto simp: filter_id_conv)
  then show ?thesis by (simp add: keys_first_occurrences)
qed

lemma set_first_occurrences: "set (first_occurrences xs) = set xs"
  by (induction xs) auto

lemma distinct_first_occurrences: "distinct (first_occurrences xs)"
  by (induction xs) (auto simp: set_first_occurrences)

lemma Object_entries_plain:
  "\<forall>k \<in> set (map fst obj). \<not> isArrayIndex k \<Longrightarrow> Object_entries obj = obj"
proof -
  assume a: "\<forall>k \<in> set (map fst obj). \<not> isArrayIndex k"
  have "filter (\<lambda>e. isArrayIndex (fst e)) obj = []" using a by (auto simp: filter_empty_conv)
  moreover have "filter (\<lambda>e. \<not> isArrayIndex (fst e)) obj = obj" using a by (auto simp: filter_id_conv)
  ultimately show ?thesis by (simp add: Object_entries_def)
qed

lemma keys_Object_entries:
  "map fst (Object_entries obj)
     = sort_key decimal_val (filter isArrayIndex (map fst obj))
       @ filter (\<lambda>k. \<not> isArrayIndex k) (map fst obj)"
  by (simp add: Object_entries_def sort_key_map filter_map comp_def)

lemma analysis_catTotals_eq: "analysis_catTotals ms = catTotals (summarise ms)"
  by (simp add: analysis_catTotals_def summarise_def Let_def add_to_reset_eq)

lemma map_fst_renderAnalysis:
  "map fst (renderAnalysis ms) = map fst (sort_by descending (Object_entries (analysis_catTotals ms)))"
  by (simp add: renderAnalysis_def comp_def case_prod_beta)

lemma deptTotals_fold:
  "deptTotals (summarise ms) = foldl (\<lambda>t r. add_to t (department r) (emission r)) [] ms"
  by (simp add: summarise_def Let_def add_to_reset_eq)

lemma catTotals_fold:
  "catTotals (summarise ms) = foldl (\<lambda>t r. add_to t (category r) (emission r)) [] ms"
  by (simp add: summarise_def Let_def add_to_reset_eq)

lemma total_fold:
  "total (summarise ms) = foldl (\<lambda>sum rec. add sum (emission rec)) (Fin 0) ms"
  by (simp add: summarise_def Let_def)

lemma tops_summarise:
  "topDept (summarise ms) = first_entry (sort_by descending (Object_entries (deptTotals (summarise ms))))"
  "topCat (summarise ms) = first_entry (sort_by descending (Object_entries (catTotals (summarise ms))))"
  by (simp_all add: summarise_def Let_def)

lemma totals_finite:
  assumes "finite_amounts activityData" "plain_names activityData"
  shows "all_finite (deptTotals (summarise (processData activityData)))"
    "all_finite (catTotals (summarise (processData activityData)))"
proof -
  note pc = plain_names_categories[OF assms(2)]
  note fin = processData_finite[OF assms(1) pc]
  show "all_finite (deptTotals (summarise (processData activityData)))"
    using fold_add_to[OF all_finite_Nil fin processData_plain(2)[OF assms(2)]]
    by (simp add: deptTotals_fold)
  show "all_finite (catTotals (summarise (processData activityData)))"
    using fold_add_to[OF all_finite_Nil fin processData_plain(1)[OF pc]]
    by (simp add: catTotals_fold)
qed

lemma renderSummary_returns:
  assumes "finite_amounts activityData" "plain_names activityData"
  shows "renderSummary (processData activityData) = Inr (summarise (processData activityData))"
  using totals_finite[OF assms]
  by (simp add: renderSummary_def Let_def tops_summarise first_entry_finite all_finite_Object_entries)

lemma share_zero_total: "share val (Num (Fin 0)) = share_of_zero_total (to_number val)"
  by (cases "to_number val") (auto simp: share_def share_of_zero_total_def positive_def signed_inf_def)

subsection \<open>Decimal strings and month keys\<close>

lemma digit_cases: "a < 10 \<Longrightarrow> a \<in> {0, 1, 2, 3, 4, 5, 6, 7, 8, 9::nat}"
  by auto

lemma of_char_digit_char: "a < 10 \<Longrightarrow> of_char (digit_char a) = (48 + a :: nat)"
  using digit_cases[of a] by (auto simp: digit_char_def)

lemma digit_char_less: "a < 10 \<Longrightarrow> b < 10 \<Longrightarrow> digit_char a < digit_char b \<longleftrightarrow> a < b"
  by (simp add: less_char_def of_char_digit_char)

lemma digit_char_inj: "a < 10 \<Longrightarrow> b < 10 \<Longrightarrow> digit_char a = digit_char b \<longleftrightarrow> a = b"
  by (metis add_left_cancel of_char_digit_char)

lemma less_append_same_length:
  "length xs = length ys \<Longrightarrow> xs @ us < ys @ vs \<longleftrightarrow> xs < ys \<or> (xs = ys \<and> us < vs)"
  by (induction xs ys rule: list_induct2) auto

lemma show_nat_neq_Nil: "show_nat n \<noteq> []"
  by (subst show_nat.simps) simp

lemma show_nat_digit: "n < 10 \<Longrightarrow> show_nat n = [digit_char n]"
  by (subst show_nat.simps) simp

lemma show_nat_step: "\<not> n < 10 \<Longrightarrow> show_nat n = show_nat (n div 10) @ [digit_char (n mod 10)]"
  by (subst show_nat.simps) simp

lemma length_show_nat_1: "length (show_nat n) = Suc 0 \<longleftrightarrow> n < 10"
proof (cases "n < 10")
  case True
  then show ?thesis by (simp add: show_nat_digit)
next
  case False
  then show ?thesis using show_nat_neq_Nil[of "n div 10"] by (simp add: show_nat_step)
qed

lemma digits_linear:
  fixes qa ra qb rb :: nat
  assumes "ra < 10" "rb < 10"
  shows "10 * qa + ra < 10 * qb + rb \<longleftrightarrow> qa < qb \<or> (qa = qb \<and> ra < rb)"
    and "10 * qa + ra = 10 * qb + rb \<longleftrightarrow> qa = qb \<and> ra = rb"
  using assms by arith+

lemma nat_less_digits:
  "(a::nat) < b \<longleftrightarrow> a div 10 < b div 10 \<or> (a div 10 = b div 10 \<and> a mod 10 < b mod 10)"
  using digits_linear(1)[of "a mod 10" "b mod 10" "a div 10" "b div 10"] by simp

lemma nat_eq_digits: "(a::nat) = b \<longleftrightarrow> a div 10 = b div 10 \<and> a mod 10 = b mod 10"
  using digits_linear(2)[of "a mod 10" "b mod 10" "a div 10" "b div 10"] by simp

lemma show_nat_order:
  "length (show_nat a) = length (show_nat b) \<Longrightarrow>
     (show_nat a < show_nat b \<longleftrightarrow> a < b) \<and> (show_nat a = show_nat b \<longleftrightarrow> a = b)"
proof (induction a arbitrary: b rule: show_nat.induct)
  case (1 a)
  show ?case
  proof (cases "a < 10")
    case True
    then have "length (show_nat a) = Suc 0" by (simp add: length_show_nat_1)
    then have b: "b < 10" using "1.prems" by (simp add: length_show_nat_1)
    have sa: "show_nat a = [digit_char a]" and sb: "show_nat b = [digit_char b]"
      using True b by (simp_all add: show_nat_digit)
    show ?thesis using True b by (simp add: sa sb digit_char_less digit_char_inj)
  next
    case False
    then have "length (show_nat a) \<noteq> Suc 0" by (simp add: length_show_nat_1)
    then have b: "\<not> b < 10" using "1.prems" by (simp add: length_show_nat_1)
    have sa: "show_nat a = show_nat (a div 10) @ [digit_char (a mod 10)]"
      using False by (rule show_nat_step)
    have sb: "show_nat b = show_nat (b div 10) @ [digit_char (b mod 10)]"
      using b by (rule show_nat_step)
    have len: "length (show_nat (a div 10)) = length (show_nat (b div 10))"
      using "1.prems" by (simp add: sa sb)
    note ih = "1.IH"[OF False len]
    have lt: "show_nat a < show_nat b \<longleftrightarrow> a < b"
      unfolding sa sb less_append_same_length[OF len]
      using ih nat_less_digits[of a b] by (simp add: digit_char_less)
    have split: "a = b \<longleftrightarrow> a div 10 = b div 10 \<and> a mod 10 = b mod 10"
      by (rule nat_eq_digits)
    have eq: "show_nat a = show_nat b \<longleftrightarrow> a = b"
      unfolding sa sb using ih split by (simp add: digit_char_inj)
    show ?thesis using lt eq by simp
  qed
qed

lemma length_show_nat_4:
  assumes "1000 \<le> n" "n < 10000"
  shows "length (show_nat n) = 4"
proof -
  have a: "\<not> n < 10" "\<not> n div 10 < 10" "\<not> n div 10 div 10 < 10" "n div 10 div 10 div 10 < 10"
    using assms
    by (simp_all add: div_mult2_eq[symmetric] div_less_iff_less_mult less_eq_div_iff_mult_less_eq not_less)
  show ?thesis by (simp add: show_nat_step a(1,2,3) show_nat_digit a(4))
qed

lemma pad2_digits:
  assumes "k < 100"
  shows "padStart0 2 (show_nat k) = [digit_char (k div 10), digit_char (k mod 10)]"
proof (cases "k < 10")
  case True
  then show ?thesis by (simp add: padStart0_def show_nat_digit digit_char_def)
next
  case False
  have "k div 10 < 10" using assms by simp
  then show ?thesis using False by (simp add: padStart0_def show_nat_step show_nat_digit)
qed

lemma pad2_order:
  assumes "a < 100" "b < 100"
  shows "padStart0 2 (show_nat a) < padStart0 2 (show_nat b) \<longleftrightarrow> a < b"
    "padStart0 2 (show_nat a) = padStart0 2 (show_nat b) \<longleftrightarrow> a = b"
proof -
  have d: "a div 10 < 10" "b div 10 < 10" "a mod 10 < 10" "b mod 10 < 10" using assms by auto
  show "padStart0 2 (show_nat a) < padStart0 2 (show_nat b) \<longleftrightarrow> a < b"
    using nat_less_digits[of a b] by (simp add: pad2_digits assms digit_char_less digit_char_inj d)
  show "padStart0 2 (show_nat a) = padStart0 2 (show_nat b) \<longleftrightarrow> a = b"
    using nat_eq_digits[of a b] by (simp add: pad2_digits assms digit_char_inj d)
qed

lemma monthKey_order:
  assumes "1000 \<le> getFullYear d1" "getFullYear d1 \<le> 9999" "getMonth d1 < 12"
    and "1000 \<le> getFullYear d2" "getFullYear d2 \<le> 9999" "getMonth d2 < 12"
  shows "monthKey d1 < monthKey d2 \<longleftrightarrow>
           getFullYear d1 < getFullYear d2 \<or> (getFullYear d1 = getFullYear d2 \<and> getMonth d1 < getMonth d2)"
    and "monthKey d1 = monthKey d2 \<longleftrightarrow> getFullYear d1 = getFullYear d2 \<and> getMonth d1 = getMonth d2"
proof -
  define Y1 where "Y1 = show_nat (nat (getFullYear d1))"
  define Y2 where "Y2 = show_nat (nat (getFullYear d2))"
  define P1 where "P1 = padStart0 2 (show_nat (getMonth d1 + 1))"
  define P2 where "P2 = padStart0 2 (show_nat (getMonth d2 + 1))"
  have k1: "monthKey d1 = Y1 @ (CHR ''-'' # P1)" and k2: "monthKey d2 = Y2 @ (CHR ''-'' # P2)"
    using assms by (simp_all add: monthKey_def show_int_def Y1_def Y2_def P1_def P2_def)
  have len: "length Y1 = length Y2"
    using assms by (simp add: Y1_def Y2_def length_show_nat_4)
  have ylt: "Y1 < Y2 \<longleftrightarrow> getFullYear d1 < getFullYear d2"
    and yeq: "Y1 = Y2 \<longleftrightarrow> getFullYear d1 = getFullYear d2"
    using show_nat_order[OF len[unfolded Y1_def Y2_def]] assms(1,4) by (auto simp: Y1_def Y2_def)
  have m: "getMonth d1 + 1 < 100" "getMonth d2 + 1 < 100" using assms by simp_all
  have plt: "P1 < P2 \<longleftrightarrow> getMonth d1 < getMonth d2" and peq: "P1 = P2 \<longleftrightarrow> getMonth d1 = getMonth d2"
    using pad2_order[OF m] by (simp_all add: P1_def P2_def)
  have tl: "CHR ''-'' # P1 < CHR ''-'' # P2 \<longleftrightarrow> P1 < P2" by simp
  show "monthKey d1 < monthKey d2 \<longleftrightarrow>
           getFullYear d1 < getFullYear d2 \<or> (getFullYear d1 = getFullYear d2 \<and> getMonth d1 < getMonth d2)"
    unfolding k1 k2 less_append_same_length[OF len] tl ylt yeq plt ..
  have "Y1 @ (CHR ''-'' # P1) = Y2 @ (CHR ''-'' # P2) \<longleftrightarrow> Y1 = Y2 \<and> P1 = P2"
    using len by simp
  then show "monthKey d1 = monthKey d2 \<longleftrightarrow> getFullYear d1 = getFullYear d2 \<and> getMonth d1 = getMonth d2"
    unfolding k1 k2 yeq peq .
qed

lemma monthKey_dash:
  "monthKey d = show_int (getFullYear d) @ CHR ''-'' # padStart0 2 (show_nat (getMonth d + 1))"
  unfolding monthKey_def by simp

lemma monthKey_not_index: "\<not> isArrayIndex (monthKey d)"
proof -
  have "CHR ''-'' \<in> set (monthKey d)"
    unfolding monthKey_dash by (simp only: set_append set_simps Un_iff insert_iff, blast)
  moreover have "\<not> isDigit CHR ''-''" by (simp add: isDigit_def)
  ultimately have "\<not> list_all isDigit (monthKey d)"
    unfolding list_all_iff by blast
  then show ?thesis by (simp add: isArrayIndex_def)
qed

lemma monthKey_plain: "\<not> inherited (monthKey d)"
proof -
  have "CHR ''-'' \<in> set (monthKey d)"
    unfolding monthKey_dash by (simp only: set_append set_simps Un_iff insert_iff, blast)
  then show ?thesis using inherited_no_dash by blast
qed

lemma monthly_keys:
  "Object_keys (monthlyTotals ms) = first_occurrences (map (\<lambda>r. monthKey (date r)) ms)"
proof -
  have k: "map fst (monthlyTotals ms) = first_occurrences (map (\<lambda>r. monthKey (date r)) ms)"
    unfolding monthlyTotals_def
    by (rule keys_first_occurrences_plain) (simp add: monthKey_plain)
  have "Object_entries (monthlyTotals ms) = monthlyTotals ms"
    by (rule Object_entries_plain) (auto simp: k set_first_occurrences monthKey_not_index)
  then show ?thesis by (simp add: Object_keys_def k)
qed

lemma value_at_fold:
  assumes "\<forall>r \<in> set ms. isFinite (emission r)" "\<forall>r \<in> set ms. \<not> inherited (key r)"
  shows "value_at (foldl (\<lambda>t r. add_to t (key r) (emission r)) [] ms) k
           = emission_sum (filter (\<lambda>r. key r = k) ms)"
  using fold_add_to[OF all_finite_Nil assms] by (simp add: value_at_def obj_get_def)

lemma obj_get_finite:
  assumes "all_finite t" "k \<in> set (map fst t)"
  shows "obj_get t k = Some (Num (Fin (value_at t k)))"
proof -
  have "map_of t k \<noteq> None" using assms(2) by (simp add: map_of_eq_None_iff)
  then obtain v where v: "obj_get t k = Some v" by (auto simp: obj_get_def)
  then have "finite_val v" using assms(1) all_finite_get by blast
  then show ?thesis using v by (auto simp: value_at_def finite_val_iff the_val_def)
qed

subsection \<open>Totals as sums over the records\<close>

lemma emission_sum_mset:
  "emission_sum ms = sum_mset (image_mset (\<lambda>r. the_fin (emission r)) (mset ms))"
  by (simp add: emission_sum_def sum_mset_sum_list[symmetric])

lemma emission_sum_filter_processData:
  "emission_sum (filter P (processData d)) = emission_sum (filter P (map set_emission d))"
  by (simp add: emission_sum_mset mset_processData del: mset_map)

lemma emission_sum_processData:
  "emission_sum (processData d) = emission_sum (map set_emission d)"
  by (simp add: emission_sum_mset mset_processData del: mset_map)

lemma emission_sum_drop_zero:
  assumes "the_fin (emission (set_emission r)) = 0"
  shows "emission_sum (filter P (map set_emission (xs @ r # ys)))
           = emission_sum (filter P (map set_emission (xs @ ys)))"
  using assms by (simp add: emission_sum_def)

lemma totals_as_sums:
  assumes "finite_amounts d" "plain_categories d"
  shows "total (summarise (processData d)) = Fin (emission_sum (map set_emission d))"
    and "value_at (catTotals (summarise (processData d))) k
           = emission_sum (filter (\<lambda>r. category r = k) (map set_emission d))"
    and "value_at (monthlyTotals (processData d)) k
           = emission_sum (filter (\<lambda>r. monthKey (date r) = k) (map set_emission d))"
    and "value_at (analysis_catTotals (processData d)) k
           = emission_sum (filter (\<lambda>r. category r = k) (map set_emission d))"
proof -
  note fin = processData_finite[OF assms]
  note pc = processData_plain(1)[OF assms(2)]
  show "total (summarise (processData d)) = Fin (emission_sum (map set_emission d))"
    using fold_total[OF fin, of 0] by (simp add: total_fold emission_sum_processData)
  show "value_at (catTotals (summarise (processData d))) k
           = emission_sum (filter (\<lambda>r. category r = k) (map set_emission d))"
    using value_at_fold[OF fin pc, of k]
    by (simp add: catTotals_fold emission_sum_filter_processData)
  show "value_at (monthlyTotals (processData d)) k
           = emission_sum (filter (\<lambda>r. monthKey (date r) = k) (map set_emission d))"
    using value_at_fold[OF fin, of "\<lambda>r. monthKey (date r)" k]
    by (simp add: monthlyTotals_def emission_sum_filter_processData monthKey_plain)
  show "value_at (analysis_catTotals (processData d)) k
           = emission_sum (filter (\<lambda>r. category r = k) (map set_emission d))"
    using value_at_fold[OF fin pc, of k]
    by (simp add: analysis_catTotals_def emission_sum_filter_processData)
qed

lemma unknown_category_emission:
  assumes "obj_get EMISSION_FACTORS (category r) = None" "\<not> inherited (category r)"
  shows "emission (set_emission r) = mul (Fin 0) (amount r)"
  using assms by (simp add: set_emission_def factor_of_def)

lemma department_key_present:
  assumes "r \<in> set d" "department r \<noteq> ''__proto__''"
  shows "department r \<in> set (Object_keys (deptTotals (summarise (processData d))))"
proof -
  have "set_emission r \<in> set (processData d)"
    using assms(1) by (simp add: set_processData)
  then have "department r \<in> department ` set (processData d)"
    by (metis image_eqI names_set_emission(2))
  then show ?thesis
    using assms(2)
    by (simp add: set_Object_keys deptTotals_fold keys_first_occurrences set_first_occurrences)
qed

lemma renderAnalysis_items:
  assumes "item \<in> set (renderAnalysis ms)"
  shows "\<exists>val. (fst item, val) \<in> set (analysis_catTotals ms) \<and>
           fst (snd item) = share val (analysis_total ms)"
proof -
  have "set (sort_by descending (Object_entries (analysis_catTotals ms))) = set (analysis_catTotals ms)"
    using mset_Object_entries[of "analysis_catTotals ms"] by (metis set_sort_by set_mset_mset)
  then show ?thesis using assms by (auto simp: renderAnalysis_def)
qed

subsection \<open>The parser\<close>

lemma parse_lines_skip:
  assumes "newDate Date_parse (obj_get (build_record header (split_on CHR '','' line)) ''date'') = None"
  shows "parse_lines Date_parse parseFloat header (line # rest)
           = parse_lines Date_parse parseFloat header rest"
  using assms by (simp add: Let_def)

lemma parse_lines_append_cong:
  assumes "parse_lines Date_parse parseFloat header ys = parse_lines Date_parse parseFloat header zs"
  shows "parse_lines Date_parse parseFloat header (xs @ ys)
           = parse_lines Date_parse parseFloat header (xs @ zs)"
  using assms by (induction xs) (simp_all add: Let_def split: option.splits sum.splits)

lemma startsWith_hash: "startsWith s ''#'' \<longleftrightarrow> (\<exists>cs. s = CHR ''#'' # cs)"
  by (cases s) (auto simp: startsWith_def)

lemma split_on_not_Nil: "split_on c s \<noteq> []"
  by (induction s) (auto split: list.splits)

lemma hd_split_on: "x \<noteq> c \<Longrightarrow> \<exists>p. hd (split_on c (x # xs)) = x # p"
  using split_on_not_Nil[of c xs] by (cases "split_on c xs") auto

lemma trim_keeps_head: "\<not> isSpace x \<Longrightarrow> trim (x # xs) = x # rev (dropWhile isSpace (rev xs))"
  by (simp add: trim_def dropWhile_append3)

lemma hash_not_space: "\<not> isSpace CHR ''#''"
  by (simp add: isSpace_def)

lemma lower_hash: "lower_char CHR ''#'' = CHR ''#''"
  by (simp add: lower_char_def)

lemma header_starts_with_hash:
  assumes "startsWith first ''#''"
  shows "startsWith (hd (header_of first)) ''#''"
proof -
  obtain cs where f: "first = CHR ''#'' # cs" using assms by (auto simp: startsWith_hash)
  obtain p where p: "hd (split_on CHR '','' first) = CHR ''#'' # p"
    using hd_split_on[of "CHR ''#''" "CHR '',''" cs] by (auto simp: f)
  have "hd (header_of first) = toLowerCase (trim (hd (split_on CHR '','' first)))"
    using split_on_not_Nil[of "CHR '',''" first] by (simp add: header_of_def hd_map)
  also have "\<dots> = CHR ''#'' # toLowerCase (rev (dropWhile isSpace (rev p)))"
    by (simp add: p trim_keeps_head[OF hash_not_space] toLowerCase_def lower_hash)
  finally show ?thesis by (simp add: startsWith_hash)
qed

lemma keys_build_record:
  "map fst (build_record header vals)
     = first_occurrences (filter (\<lambda>k. k \<noteq> ''__proto__'') header)"
proof -
  have "map fst (foldl (\<lambda>record (key, idx). assign record key (f idx)) t kis)
          = foldl (\<lambda>ks k. if k \<in> set ks then ks else ks @ [k]) (map fst t)
              (filter (\<lambda>k. k \<noteq> ''__proto__'') (map fst kis))"
    for f :: "nat \<Rightarrow> string" and t kis
    by (induction kis arbitrary: t) (force simp: keys_assign)+
  then show ?thesis
    by (simp add: build_record_def append_new_first_occurrences)
qed

lemma parse_lines_props:
  "parse_lines Date_parse parseFloat header lines = Inr data \<Longrightarrow> r \<in> set data \<Longrightarrow>
     \<exists>line \<in> set lines. props r = build_record header (split_on CHR '','' line)"
proof (induction lines arbitrary: data)
  case Nil
  then show ?case by simp
next
  case (Cons line lines)
  show ?case
  proof (cases "parse_lines Date_parse parseFloat header (line # lines)
                  = parse_lines Date_parse parseFloat header lines")
    case True
    then show ?thesis using Cons by auto
  next
    case False
    then obtain dt c rest where
      "data = \<lparr>props = build_record header (split_on CHR '','' line), date = dt,
               amount = parseFloat (case obj_get (build_record header (split_on CHR '','' line)) ''amount'' of
                                      None \<Rightarrow> ''undefined'' | Some a \<Rightarrow> a),
               category = toLowerCase c\<rparr> # rest"
      and "parse_lines Date_parse parseFloat header lines = Inr rest"
      using Cons.prems(1) by (auto simp: Let_def split: if_splits option.splits sum.splits)
    then show ?thesis using Cons.IH[of rest] Cons.prems(2) by auto
  qed
qed

subsection \<open>The saved history\<close>

lemma readHistory_empty:
  assumes "item = None \<or> (\<exists>blob. item = Some blob \<and> parse blob = None)"
  shows "readHistory parse item = JArr []"
  using assms by (auto simp: readHistory_def)

lemma readHistory_empty_blob: "parse b0 = Some (JArr []) \<Longrightarrow> readHistory parse (Some b0) = JArr []"
  by (simp add: readHistory_def)

lemma loadHistory_empty:
  "readHistory parse (storage p) = JArr [] \<Longrightarrow> loadHistory parse p = (None, p\<lparr>history := NoHistory\<rparr>)"
  by (simp add: loadHistory_def Let_def)

lemma storage_loadHistory: "storage (snd (loadHistory parse p)) = storage p"
  by (simp add: loadHistory_def Let_def split: json.splits sum.splits)

lemma saveResult_depends_on_history:
  assumes "readHistory parse (storage p) = readHistory parse (storage q)"
    and "p\<lparr>storage := None\<rparr> = q\<lparr>storage := None\<rparr>"
    and "result p = Some data" "data \<noteq> []" "parse data = Some entry"
    and "readHistory parse (storage p) = JArr entries"
  shows "saveResult parse stringify p = saveResult parse stringify q"
proof -
  have r: "result q = result p" and al: "alerts q = alerts p"
    using arg_cong[OF assms(2), of result] arg_cong[OF assms(2), of alerts] by simp_all
  have u: "p\<lparr>storage := x\<rparr> = q\<lparr>storage := x\<rparr>" for x
    using arg_cong[OF assms(2), of "\<lambda>s. s\<lparr>storage := x\<rparr>"] by simp
  have hq: "readHistory parse (storage q) = JArr entries"
    using assms(1,6) by simp
  show ?thesis
    by (simp add: saveResult_def assms(3,4,5,6) hq r[unfolded assms(3)] u)
qed

section \<open>The claims\<close>

text \<open>
  C1, as the code has it. For every parsed dataset whose amounts are finite numbers and
  whose departments and categories are not names that a plain object inherits, run through
  \<open>processData\<close>: the summary is rendered, the per-category totals and the per-department
  totals of the summary each add up to the total emission, which is the sum of the records'
  emissions, each counted once; the total that the analysis computes from its own
  per-category totals is the same number.
\<close>

theorem sums_agree:
  assumes "finite_amounts activityData" and "plain_names activityData"
  shows "renderSummary (processData activityData) = Inr (summarise (processData activityData)) \<and>
         total (summarise (processData activityData)) = Fin (emission_sum (processData activityData)) \<and>
         reduce_add (Object_values (catTotals (summarise (processData activityData))))
           = Num (total (summarise (processData activityData))) \<and>
         reduce_add (Object_values (deptTotals (summarise (processData activityData))))
           = Num (total (summarise (processData activityData))) \<and>
         analysis_total (processData activityData) = Num (total (summarise (processData activityData)))"
proof -
  let ?ms = "processData activityData"
  note pc = plain_names_categories[OF assms(2)]
  have fin: "\<forall>r \<in> set ?ms. isFinite (emission r)"
    by (rule processData_finite[OF assms(1) pc])
  have r: "renderSummary ?ms = Inr (summarise ?ms)"
    by (rule renderSummary_returns[OF assms])
  have t: "total (summarise ?ms) = Fin (emission_sum ?ms)"
    using fold_total[OF fin, of 0] by (simp add: total_fold)
  note c = fold_add_to[OF all_finite_Nil fin processData_plain(1)[OF pc]]
  note d = fold_add_to[OF all_finite_Nil fin processData_plain(2)[OF assms(2)]]
  have cs: "reduce_add (Object_values (catTotals (summarise ?ms))) = Num (Fin (emission_sum ?ms))"
    using c reduce_add_values by (simp add: catTotals_fold obj_sum_Nil)
  have ds: "reduce_add (Object_values (deptTotals (summarise ?ms))) = Num (Fin (emission_sum ?ms))"
    using d reduce_add_values by (simp add: deptTotals_fold obj_sum_Nil)
  have an: "analysis_total ?ms = Num (Fin (emission_sum ?ms))"
    using c reduce_add_values by (simp add: analysis_total_def analysis_catTotals_def obj_sum_Nil)
  show ?thesis using r t cs ds an by simp
qed

text \<open>
  C1 on the sample dataset: 100 kWh of electricity, 50 km by car and 10 units of an unknown
  category give 90.5335 in all three sums.
\<close>

theorem sums_agree_witness:
  "finite_amounts sample_data \<and> plain_names sample_data \<and>
   renderSummary (processData sample_data) = Inr (summarise (processData sample_data)) \<and>
   total (summarise (processData sample_data)) = Fin (181067 / 2000) \<and>
   reduce_add (Object_values (catTotals (summarise (processData sample_data)))) = Num (Fin (181067 / 2000)) \<and>
   reduce_add (Object_values (deptTotals (summarise (processData sample_data)))) = Num (Fin (181067 / 2000)) \<and>
   analysis_total (processData sample_data) = Num (Fin (181067 / 2000))"
proof -
  have h: "finite_amounts sample_data" by code_simp
  have p: "plain_names sample_data" by code_simp
  have t: "total (summarise (processData sample_data)) = Fin (181067 / 2000)" by code_simp
  show ?thesis using sums_agree[OF h p] h p t by simp
qed

text \<open>
  C1 as stated fails. With one record of the department \<open>__proto__\<close> (41 of waste) beside
  82 of electricity, the total and the per-category sum are 123 but the per-department
  totals hold no key for \<open>__proto__\<close> and add up to 82. With an amount that is not a
  number followed by 100 kWh, the total is NaN but the per-category and per-department
  totals restart from \<open>0\<close> and add up to 82.
\<close>

theorem sums_disagree_counterexample:
  "finite_amounts proto_department_data \<and>
   renderSummary (processData proto_department_data)
     = Inr (summarise (processData proto_department_data)) \<and>
   total (summarise (processData proto_department_data)) = Fin 123 \<and>
   reduce_add (Object_values (catTotals (summarise (processData proto_department_data))))
     = Num (Fin 123) \<and>
   deptTotals (summarise (processData proto_department_data)) = [(''Ops'', Num (Fin 82))] \<and>
   reduce_add (Object_values (deptTotals (summarise (processData proto_department_data))))
     = Num (Fin 82) \<and>
   plain_names nan_amount_data \<and>
   renderSummary (processData nan_amount_data) = Inr (summarise (processData nan_amount_data)) \<and>
   total (summarise (processData nan_amount_data)) = NaN \<and>
   reduce_add (Object_values (catTotals (summarise (processData nan_amount_data)))) = Num (Fin 82) \<and>
   reduce_add (Object_values (deptTotals (summarise (processData nan_amount_data)))) = Num (Fin 82)"
  by code_simp

text \<open>
  C2, as the code has it. For a dataset whose amounts are finite numbers and whose
  departments and categories are not names that a plain object inherits: the records are
  sorted by date, the entries of the per-department and per-category totals are sorted
  descending by summed emission with a stable sort, and the analysis lists the categories in
  that order. Entries with equal totals keep the order in which the totals object enumerates
  them: the top entry is, among the entries with the greatest total, the first in that
  enumeration. The object holds its keys in the order of their first occurrence in the
  records sorted by date, and enumerates the keys that are array indices first, in
  ascending numeric order, then the other keys in the order held. The alphabet plays no part.
\<close>

theorem ranking_is_stable:
  assumes "finite_amounts activityData" and "plain_names activityData"
  shows
    "(let ms = processData activityData; s = summarise ms;
          depts = Object_entries (deptTotals s); cats = Object_entries (catTotals s)
      in ms = sort_key (\<lambda>r. getTime (date r)) (map set_emission activityData) \<and>
         renderSummary ms = Inr s \<and>
         topDept s = first_entry (sort_by descending depts) \<and>
         topCat s = first_entry (sort_by descending cats) \<and>
         map fst (renderAnalysis ms) = map fst (sort_by descending cats) \<and>
         descending_values (sort_by descending depts) \<and>
         keeps_ties depts (sort_by descending depts) \<and>
         descending_values (sort_by descending cats) \<and>
         keeps_ties cats (sort_by descending cats) \<and>
         (\<forall>e. topDept s = Some e \<longrightarrow>
              (\<forall>x \<in> set depts. the_val (snd x) \<le> the_val (snd e)) \<and>
              first_entry (filter (\<lambda>x. snd x = snd e) depts) = Some e) \<and>
         (\<forall>e. topCat s = Some e \<longrightarrow>
              (\<forall>x \<in> set cats. the_val (snd x) \<le> the_val (snd e)) \<and>
              first_entry (filter (\<lambda>x. snd x = snd e) cats) = Some e) \<and>
         map fst (deptTotals s) = first_occurrences (map department ms) \<and>
         map fst (catTotals s) = first_occurrences (map category ms) \<and>
         map fst depts
           = sort_key decimal_val (filter isArrayIndex (first_occurrences (map department ms)))
             @ filter (\<lambda>k. \<not> isArrayIndex k) (first_occurrences (map department ms)) \<and>
         map fst cats
           = sort_key decimal_val (filter isArrayIndex (first_occurrences (map category ms)))
             @ filter (\<lambda>k. \<not> isArrayIndex k) (first_occurrences (map category ms)))"
proof -
  define ms where "ms = processData activityData"
  define s where "s = summarise ms"
  define depts where "depts = Object_entries (deptTotals s)"
  define cats where "cats = Object_entries (catTotals s)"
  note pn = plain_names_categories[OF assms(2)]
  have srt: "ms = sort_key (\<lambda>r. getTime (date r)) (map set_emission activityData)"
    unfolding ms_def by (rule processData_sort_key)
  have rs: "renderSummary ms = Inr s"
    unfolding ms_def s_def by (rule renderSummary_returns[OF assms])
  have fd: "all_finite depts" and fc: "all_finite cats"
    using totals_finite[OF assms] by (simp_all add: depts_def cats_def s_def ms_def all_finite_Object_entries)
  have td: "topDept s = first_entry (sort_by descending depts)"
    and tc: "topCat s = first_entry (sort_by descending cats)"
    by (simp_all add: s_def depts_def cats_def tops_summarise)
  have an: "map fst (renderAnalysis ms) = map fst (sort_by descending cats)"
    by (simp add: map_fst_renderAnalysis analysis_catTotals_eq cats_def s_def)
  note pd = sort_descending_props[OF fd]
  note pc = sort_descending_props[OF fc]
  have topd: "(\<forall>x \<in> set depts. the_val (snd x) \<le> the_val (snd e)) \<and>
              first_entry (filter (\<lambda>x. snd x = snd e) depts) = Some e" if e: "topDept s = Some e" for e
    by (rule first_is_top[OF pd mset_sort_by]) (use e td in simp)
  have topc: "(\<forall>x \<in> set cats. the_val (snd x) \<le> the_val (snd e)) \<and>
              first_entry (filter (\<lambda>x. snd x = snd e) cats) = Some e" if e: "topCat s = Some e" for e
    by (rule first_is_top[OF pc mset_sort_by]) (use e tc in simp)
  have kd: "map fst (deptTotals s) = first_occurrences (map department ms)"
    unfolding s_def deptTotals_fold ms_def
    by (rule keys_first_occurrences_plain) (rule processData_plain(2)[OF assms(2)])
  have kc: "map fst (catTotals s) = first_occurrences (map category ms)"
    unfolding s_def catTotals_fold ms_def
    by (rule keys_first_occurrences_plain) (rule processData_plain(1)[OF pn])
  have ed: "map fst depts
           = sort_key decimal_val (filter isArrayIndex (first_occurrences (map department ms)))
             @ filter (\<lambda>k. \<not> isArrayIndex k) (first_occurrences (map department ms))"
    unfolding depts_def keys_Object_entries kd ..
  have ec: "map fst cats
           = sort_key decimal_val (filter isArrayIndex (first_occurrences (map category ms)))
             @ filter (\<lambda>k. \<not> isArrayIndex k) (first_occurrences (map category ms))"
    unfolding cats_def keys_Object_entries kc ..
  show ?thesis
    unfolding Let_def ms_def[symmetric] s_def[symmetric] depts_def[symmetric] cats_def[symmetric]
    using srt rs td tc an pd pc topd topc kd kc ed ec by blast
qed

text \<open>
  C2 on a dataset of four departments that tie at 41: by date they come as 10, B, 2, A; the
  totals object enumerates 2, 10, B, A; the top department is 2.
\<close>

theorem ranking_is_stable_witness:
  "finite_amounts ranking_data \<and> plain_names ranking_data \<and>
   map department ranking_data = [''A'', ''2'', ''10'', ''B''] \<and>
   map department (processData ranking_data) = [''10'', ''B'', ''2'', ''A''] \<and>
   map fst (deptTotals (summarise (processData ranking_data))) = [''10'', ''B'', ''2'', ''A''] \<and>
   map fst (Object_entries (deptTotals (summarise (processData ranking_data))))
     = [''2'', ''10'', ''B'', ''A''] \<and>
   renderSummary (processData ranking_data) = Inr (summarise (processData ranking_data)) \<and>
   topDept (summarise (processData ranking_data)) = Some (''2'', Num (Fin 41)) \<and>
   first_entry (filter (\<lambda>x. snd x = Num (Fin 41))
      (Object_entries (deptTotals (summarise (processData ranking_data))))) = Some (''2'', Num (Fin 41))"
proof -
  have h: "finite_amounts ranking_data" by code_simp
  have p: "plain_names ranking_data" by code_simp
  have d0: "map department ranking_data = [''A'', ''2'', ''10'', ''B'']" by code_simp
  have d1: "map department (processData ranking_data) = [''10'', ''B'', ''2'', ''A'']" by code_simp
  have f: "first_occurrences [''10'', ''B'', ''2'', ''A''] = [''10'', ''B'', ''2'', ''A'']" by code_simp
  have e: "sort_key decimal_val (filter isArrayIndex [''10'', ''B'', ''2'', ''A''])
             @ filter (\<lambda>k. \<not> isArrayIndex k) [''10'', ''B'', ''2'', ''A'']
           = [''2'', ''10'', ''B'', ''A'']" by code_simp
  have t: "topDept (summarise (processData ranking_data)) = Some (''2'', Num (Fin 41))" by code_simp
  note w = ranking_is_stable[OF h p, unfolded Let_def]
  have "map fst (deptTotals (summarise (processData ranking_data)))
          = first_occurrences (map department (processData ranking_data))"
    using w by blast
  then have k: "map fst (deptTotals (summarise (processData ranking_data))) = [''10'', ''B'', ''2'', ''A'']"
    unfolding d1 f .
  have "map fst (Object_entries (deptTotals (summarise (processData ranking_data))))
          = sort_key decimal_val
              (filter isArrayIndex (first_occurrences (map department (processData ranking_data))))
            @ filter (\<lambda>k. \<not> isArrayIndex k)
                (first_occurrences (map department (processData ranking_data)))"
    using w by blast
  then have o: "map fst (Object_entries (deptTotals (summarise (processData ranking_data))))
     = [''2'', ''10'', ''B'', ''A'']"
    unfolding d1 f e .
  have r: "renderSummary (processData ranking_data) = Inr (summarise (processData ranking_data))"
    using w by blast
  have g: "first_entry (filter (\<lambda>x. snd x = snd (''2'', Num (Fin 41)))
      (Object_entries (deptTotals (summarise (processData ranking_data))))) = Some (''2'', Num (Fin 41))"
    using w t by blast
  show ?thesis using h p d0 d1 k o r t g by simp
qed

text \<open>
  C2 as stated fails: departments A and B tie at 41, and so do the categories electricity
  and waste; the top department is B and the top category is waste, each the
  alphabetically later key, and the analysis lists waste before electricity.
\<close>

theorem alphabetical_ties_counterexample:
  "renderSummary (processData tie_data) = Inr (summarise (processData tie_data)) \<and>
   topDept (summarise (processData tie_data)) = Some (''B'', Num (Fin 41)) \<and>
   obj_get (deptTotals (summarise (processData tie_data))) ''A'' = Some (Num (Fin 41)) \<and>
   ''A'' < ''B'' \<and>
   topCat (summarise (processData tie_data)) = Some (''waste'', Num (Fin 41)) \<and>
   map fst (renderAnalysis (processData tie_data)) = [''waste'', ''electricity''] \<and>
   obj_get (analysis_catTotals (processData tie_data)) ''electricity'' = Some (Num (Fin 41)) \<and>
   ''electricity'' < ''waste''"
  by code_simp

text \<open>
  C3, as the code has it. The share is \<open>(val / total) * 100\<close> with no guard. When the
  total is \<open>0\<close> the division by zero gives NaN for a category whose sum is \<open>0\<close>,
  \<open>+Infinity\<close> for a positive sum and \<open>-Infinity\<close> for a negative one. When every
  amount is a number and none is negative, a total of \<open>0\<close> makes every share NaN.
\<close>

theorem share_without_guard:
  "(analysis_total ms = Num (Fin 0) \<longrightarrow>
      renderAnalysis ms
        = map (\<lambda>(cat, val). (cat, share_of_zero_total (to_number val), generateCue cat))
            (sort_by descending (Object_entries (analysis_catTotals ms)))) \<and>
   (finite_amounts d \<and> nonneg_amounts d \<and> analysis_total (processData d) = Num (Fin 0) \<longrightarrow>
      (\<forall>item \<in> set (renderAnalysis (processData d)). fst (snd item) = NaN))"
proof (rule conjI; rule impI)
  assume "analysis_total ms = Num (Fin 0)"
  then show "renderAnalysis ms
        = map (\<lambda>(cat, val). (cat, share_of_zero_total (to_number val), generateCue cat))
            (sort_by descending (Object_entries (analysis_catTotals ms)))"
    by (simp add: renderAnalysis_def share_zero_total)
next
  assume h: "finite_amounts d \<and> nonneg_amounts d \<and> analysis_total (processData d) = Num (Fin 0)"
  then have fa: "finite_amounts d" and nn: "nonneg_amounts d"
    and z: "analysis_total (processData d) = Num (Fin 0)" by simp_all
  let ?t = "analysis_catTotals (processData d)"
  have af: "all_finite ?t" and sum0: "obj_sum ?t = 0"
    using reduce_add_finite[OF z[unfolded analysis_total_def]] by simp_all
  have "\<forall>r \<in> set (processData d). not_negative (emission r)"
    using fa nn
    by (auto simp: set_processData finite_amounts_def nonneg_amounts_def list_all_iff
        intro: emission_not_negative)
  then have inv: "\<forall>x \<in> set ?t. not_negative_val (snd x)"
    unfolding analysis_catTotals_def by (intro fold_not_negative) simp_all
  have "0 \<le> the_val (snd x)" if x: "x \<in> set ?t" for x
  proof -
    obtain a where a: "snd x = Num (Fin a)"
      using af x by (auto simp: all_finite_def list_all_iff finite_val_iff)
    have "not_negative_val (snd x)" using inv x by blast
    then show ?thesis by (simp add: a not_negative_val_def the_val_def)
  qed
  then have nonneg: "\<forall>v \<in> set (map (\<lambda>e. the_val (snd e)) ?t). 0 \<le> v"
    by auto
  have "\<forall>v \<in> set (map (\<lambda>e. the_val (snd e)) ?t). v = 0"
    using sum_list_nonneg_eq_0_iff[of "map (\<lambda>e. the_val (snd e)) ?t"] nonneg sum0
    unfolding obj_sum_def by blast
  then have vz: "\<forall>x \<in> set ?t. the_val (snd x) = 0" by simp
  have zero: "snd x = Num (Fin 0)" if x: "x \<in> set ?t" for x
  proof -
    obtain a where a: "snd x = Num (Fin a)"
      using af x by (auto simp: all_finite_def list_all_iff finite_val_iff)
    have "the_val (snd x) = 0" using vz x by blast
    then show ?thesis by (simp add: a the_val_def)
  qed
  show "\<forall>item \<in> set (renderAnalysis (processData d)). fst (snd item) = NaN"
  proof
    fix item assume "item \<in> set (renderAnalysis (processData d))"
    then obtain val where v: "(fst item, val) \<in> set ?t"
      and s: "fst (snd item) = share val (analysis_total (processData d))"
      using renderAnalysis_items by blast
    have "val = Num (Fin 0)" using zero v by auto
    then show "fst (snd item) = NaN"
      by (simp add: s z share_zero_total share_of_zero_total_def)
  qed
qed

text \<open>
  C3 on a dataset of unknown categories only: the total is \<open>0\<close> and both shares are NaN.
\<close>

theorem share_without_guard_witness:
  "analysis_total (processData unknown_only_data) = Num (Fin 0) \<and>
   finite_amounts unknown_only_data \<and> nonneg_amounts unknown_only_data \<and>
   renderAnalysis (processData unknown_only_data)
     = [(''paper'', NaN, generateCue ''paper''), (''water'', NaN, generateCue ''water'')] \<and>
   list_all (\<lambda>item. fst (snd item) = NaN) (renderAnalysis (processData unknown_only_data))"
proof -
  have z: "analysis_total (processData unknown_only_data) = Num (Fin 0)" by code_simp
  have f: "finite_amounts unknown_only_data" by code_simp
  have n: "nonneg_amounts unknown_only_data" by code_simp
  have s: "sort_by descending (Object_entries (analysis_catTotals (processData unknown_only_data)))
             = [(''paper'', Num (Fin 0)), (''water'', Num (Fin 0))]" by code_simp
  have v: "share_of_zero_total (Fin 0) = NaN" by code_simp
  note w = share_without_guard[of "processData unknown_only_data" unknown_only_data]
  have r: "renderAnalysis (processData unknown_only_data)
     = [(''paper'', NaN, generateCue ''paper''), (''water'', NaN, generateCue ''water'')]"
    using w z by (simp add: s v)
  have a: "list_all (\<lambda>item. fst (snd item) = NaN) (renderAnalysis (processData unknown_only_data))"
    using w z f n by (simp add: list_all_iff)
  show ?thesis using z f n r a by simp
qed

text \<open>
  C3 as stated fails: 100 kWh of electricity and -82 kg of waste cancel to a total of
  \<open>0\<close>, and the shares are \<open>+Infinity\<close> and \<open>-Infinity\<close>, neither zero nor undefined.
\<close>

theorem unguarded_share_counterexample:
  "analysis_total (processData cancelling_data) = Num (Fin 0) \<and>
   map (\<lambda>item. (fst item, fst (snd item))) (renderAnalysis (processData cancelling_data))
     = [(''electricity'', PInf), (''waste'', NInf)]"
  by code_simp

text \<open>
  C4. A data line whose date field does not parse to a valid date is dropped without an
  error: the parser returns what it returns for the input without that line, so the line
  yields no record, and the summary (with its total), the trend chart and the analysis are
  those of the input without it.
\<close>

theorem invalid_date_line_dropped:
  assumes "newDate Date_parse (obj_get (build_record header (split_on CHR '','' line)) ''date'') = None"
  shows "parse_lines Date_parse parseFloat header (before @ line # after)
           = parse_lines Date_parse parseFloat header (before @ after) \<and>
         map_sum id dashboard (parse_lines Date_parse parseFloat header (before @ line # after))
           = map_sum id dashboard (parse_lines Date_parse parseFloat header (before @ after)) \<and>
         (split_lines (trim text) = h # before @ line # after \<and> header = header_of h \<longrightarrow>
            parseCSV Date_parse parseFloat text
              = parse_lines Date_parse parseFloat header (before @ after))"
proof -
  have a: "parse_lines Date_parse parseFloat header (before @ line # after)
           = parse_lines Date_parse parseFloat header (before @ after)"
    by (rule parse_lines_append_cong) (rule parse_lines_skip[OF assms])
  show ?thesis using a by (auto simp: parseCSV_def Let_def)
qed

text \<open>
  C4 on the sample text, whose second data line carries the date \<open>2024-13-45\<close>.
\<close>

theorem invalid_date_line_dropped_witness:
  "newDate sample_Date_parse
     (obj_get (build_record sample_header (split_on CHR '','' ''2024-13-45,Ops,waste,kg,100'')) ''date'')
     = None \<and>
   split_lines (trim sample_text)
     = [''Date,Department,Category,Unit,Amount'', ''2024-01-06,Ops,transport_car,km,50'',
        ''2024-13-45,Ops,waste,kg,100'', ''2024-01-05,Ops,Electricity,kWh,100''] \<and>
   parse_lines sample_Date_parse sample_parseFloat sample_header
     [''2024-01-06,Ops,transport_car,km,50'', ''2024-13-45,Ops,waste,kg,100'',
      ''2024-01-05,Ops,Electricity,kWh,100'']
     = parse_lines sample_Date_parse sample_parseFloat sample_header
         [''2024-01-06,Ops,transport_car,km,50'', ''2024-01-05,Ops,Electricity,kWh,100''] \<and>
   map_sum id (map (\<lambda>r. (category r, amount r))) (parseCSV sample_Date_parse sample_parseFloat sample_text)
     = Inr [(''transport_car'', Fin 50), (''electricity'', Fin 100)]"
proof -
  let ?h = "''Date,Department,Category,Unit,Amount''"
  let ?l1 = "''2024-01-06,Ops,transport_car,km,50''"
  let ?bad = "''2024-13-45,Ops,waste,kg,100''"
  let ?l2 = "''2024-01-05,Ops,Electricity,kWh,100''"
  have d: "newDate sample_Date_parse
     (obj_get (build_record sample_header (split_on CHR '','' ?bad)) ''date'') = None" by code_simp
  have s: "split_lines (trim sample_text) = ?h # [?l1] @ ?bad # [?l2]" by code_simp
  have hd: "sample_header = header_of ?h" by code_simp
  have v: "map_sum id (map (\<lambda>r. (category r, amount r)))
             (parse_lines sample_Date_parse sample_parseFloat sample_header ([?l1] @ [?l2]))
     = Inr [(''transport_car'', Fin 50), (''electricity'', Fin 100)]" by code_simp
  note w = invalid_date_line_dropped[OF d, of sample_parseFloat "[?l1]" "[?l2]" sample_text ?h]
  have e: "parse_lines sample_Date_parse sample_parseFloat sample_header ([?l1] @ ?bad # [?l2])
     = parse_lines sample_Date_parse sample_parseFloat sample_header ([?l1] @ [?l2])"
    using w by blast
  have c: "parseCSV sample_Date_parse sample_parseFloat sample_text
     = parse_lines sample_Date_parse sample_parseFloat sample_header ([?l1] @ [?l2])"
    using w s hd by blast
  show ?thesis using d s e v unfolding c by simp
qed




text \<open>
  C6. The emission factors are: electricity 0.82, bus 0.11, train 0.04, flight 0.46 (each
  the same in the calculator and in the dashboard), waste 1.0, meat meal 15, and car 0.18 in
  the calculator but 0.17067 in the dashboard; 100 km by car come to 17.067 in the dashboard
  and to 18 in the calculator.
\<close>

theorem emission_factor_constants:
  "obj_get EMISSION_FACTORS ''electricity'' = Some (Fin (82 / 100)) \<and>
   ELECTRICITY_FACTOR = Fin (82 / 100) \<and>
   obj_get EMISSION_FACTORS ''transport_bus'' = Some (Fin (11 / 100)) \<and>
   obj_get EMISSION_FACTORS_calculator ''bus'' = Some (Fin (11 / 100)) \<and>
   obj_get EMISSION_FACTORS ''transport_train'' = Some (Fin (4 / 100)) \<and>
   obj_get EMISSION_FACTORS_calculator ''train'' = Some (Fin (4 / 100)) \<and>
   obj_get EMISSION_FACTORS ''transport_flight'' = Some (Fin (46 / 100)) \<and>
   obj_get EMISSION_FACTORS_calculator ''flight'' = Some (Fin (46 / 100)) \<and>
   obj_get EMISSION_FACTORS ''waste'' = Some (Fin 1) \<and>
   MEAT_MEAL_FACTOR = Fin 15 \<and>
   obj_get EMISSION_FACTORS_calculator ''car'' = Some (Fin (18 / 100)) \<and>
   obj_get EMISSION_FACTORS ''transport_car'' = Some (Fin (17067 / 100000)) \<and>
   map fst EMISSION_FACTORS
     = [''electricity'', ''transport_car'', ''transport_bus'', ''transport_train'',
        ''transport_flight'', ''waste''] \<and>
   map fst EMISSION_FACTORS_calculator = [''car'', ''bus'', ''train'', ''flight''] \<and>
   emission (set_emission (mk_activity ''Ops'' ''transport_car'' 0 2024 0 (Fin 100))) = Fin (17067 / 1000) \<and>
   transportEmission (\<lambda>s. Fin 100)
     \<lparr>transport_distance = ''100'', transport_mode = ''car'', electricity = ''0'', meat_meals = ''0''\<rparr>
     = Fin 18"
  by code_simp

text \<open>
  C7. The trend chart keys every record by the string of its year and zero-padded month and
  shows the keys sorted ascending in lexicographic order, each once, with the sum of the
  emissions of its records. For two dates with four-digit years the lexicographic order of
  their keys is the chronological order of their months, and equal keys mean the same month
  of the same year.
\<close>

theorem month_buckets:
  "(let labels = fst (renderTrendChart ms) in
      sorted labels \<and> distinct labels \<and> set labels = (\<lambda>r. monthKey (date r)) ` set ms \<and>
      ((\<forall>r \<in> set ms. isFinite (emission r)) \<longrightarrow>
         snd (renderTrendChart ms)
           = map (\<lambda>k. Some (Num (Fin (emission_sum (filter (\<lambda>r. monthKey (date r) = k) ms))))) labels)) \<and>
   (1000 \<le> getFullYear d1 \<and> getFullYear d1 \<le> 9999 \<and> getMonth d1 < 12 \<and>
    1000 \<le> getFullYear d2 \<and> getFullYear d2 \<le> 9999 \<and> getMonth d2 < 12 \<longrightarrow>
      (monthKey d1 < monthKey d2 \<longleftrightarrow>
         getFullYear d1 < getFullYear d2 \<or> (getFullYear d1 = getFullYear d2 \<and> getMonth d1 < getMonth d2)) \<and>
      (monthKey d1 = monthKey d2 \<longleftrightarrow> getFullYear d1 = getFullYear d2 \<and> getMonth d1 = getMonth d2))"
proof -
  define labels where "labels = fst (renderTrendChart ms)"
  have l: "labels = sort (first_occurrences (map (\<lambda>r. monthKey (date r)) ms))"
    by (simp add: labels_def renderTrendChart_def Let_def sort_strings_def monthly_keys)
  have a: "sorted labels" "distinct labels" "set labels = (\<lambda>r. monthKey (date r)) ` set ms"
    by (simp_all add: l distinct_first_occurrences set_first_occurrences)
  have v: "snd (renderTrendChart ms)
           = map (\<lambda>k. Some (Num (Fin (emission_sum (filter (\<lambda>r. monthKey (date r) = k) ms))))) labels"
    if fin: "\<forall>r \<in> set ms. isFinite (emission r)"
  proof -
    have pl: "\<forall>r \<in> set ms. \<not> inherited (monthKey (date r))"
      by (simp add: monthKey_plain)
    have af: "all_finite (monthlyTotals ms)"
      using fold_add_to[OF all_finite_Nil fin pl] by (simp add: monthlyTotals_def)
    have keys: "set (map fst (monthlyTotals ms)) = set labels"
      unfolding monthlyTotals_def keys_first_occurrences_plain[OF pl]
      by (simp add: a(3) set_first_occurrences)
    have "read_prop (monthlyTotals ms) k
            = Some (Num (Fin (emission_sum (filter (\<lambda>r. monthKey (date r) = k) ms))))"
      if k: "k \<in> set labels" for k
    proof -
      have "\<not> inherited k" using k a(3) monthKey_plain by auto
      then have "read_prop (monthlyTotals ms) k = obj_get (monthlyTotals ms) k"
        by (rule read_prop_plain)
      then show ?thesis
        using obj_get_finite[OF af, of k] k keys value_at_fold[OF fin pl, of k]
        by (simp add: monthlyTotals_def)
    qed
    then have "map (read_prop (monthlyTotals ms)) labels
        = map (\<lambda>k. Some (Num (Fin (emission_sum (filter (\<lambda>r. monthKey (date r) = k) ms))))) labels"
      by (intro map_cong refl)
    moreover have "snd (renderTrendChart ms) = map (read_prop (monthlyTotals ms)) labels"
      by (simp add: renderTrendChart_def Let_def labels_def)
    ultimately show ?thesis by simp
  qed
  have p1: "sorted labels \<and> distinct labels \<and> set labels = (\<lambda>r. monthKey (date r)) ` set ms \<and>
      ((\<forall>r \<in> set ms. isFinite (emission r)) \<longrightarrow>
         snd (renderTrendChart ms)
           = map (\<lambda>k. Some (Num (Fin (emission_sum (filter (\<lambda>r. monthKey (date r) = k) ms))))) labels)"
    using a v by (intro conjI impI)
  have p2: "1000 \<le> getFullYear d1 \<and> getFullYear d1 \<le> 9999 \<and> getMonth d1 < 12 \<and>
    1000 \<le> getFullYear d2 \<and> getFullYear d2 \<le> 9999 \<and> getMonth d2 < 12 \<longrightarrow>
      (monthKey d1 < monthKey d2 \<longleftrightarrow>
         getFullYear d1 < getFullYear d2 \<or> (getFullYear d1 = getFullYear d2 \<and> getMonth d1 < getMonth d2)) \<and>
      (monthKey d1 = monthKey d2 \<longleftrightarrow> getFullYear d1 = getFullYear d2 \<and> getMonth d1 = getMonth d2)"
  proof
    assume h: "1000 \<le> getFullYear d1 \<and> getFullYear d1 \<le> 9999 \<and> getMonth d1 < 12 \<and>
      1000 \<le> getFullYear d2 \<and> getFullYear d2 \<le> 9999 \<and> getMonth d2 < 12"
    then have h': "1000 \<le> getFullYear d1" "getFullYear d1 \<le> 9999" "getMonth d1 < 12"
      "1000 \<le> getFullYear d2" "getFullYear d2 \<le> 9999" "getMonth d2 < 12"
      by simp_all
    show "(monthKey d1 < monthKey d2 \<longleftrightarrow>
         getFullYear d1 < getFullYear d2 \<or> (getFullYear d1 = getFullYear d2 \<and> getMonth d1 < getMonth d2)) \<and>
      (monthKey d1 = monthKey d2 \<longleftrightarrow> getFullYear d1 = getFullYear d2 \<and> getMonth d1 = getMonth d2)"
      by (rule conjI) (rule monthKey_order(1)[OF h'], rule monthKey_order(2)[OF h'])
  qed
  show ?thesis
    unfolding Let_def labels_def[symmetric]
    using p1 p2 by (rule conjI)
qed

text \<open>
  C7 on the sample dataset, and on December 2024 against January 2025.
\<close>

theorem month_buckets_witness:
  "list_all (\<lambda>r. isFinite (emission r)) (processData sample_data) \<and>
   renderTrendChart (processData sample_data)
     = ([''2024-01'', ''2024-02''], [Some (Num (Fin (181067 / 2000))), Some (Num (Fin 0))]) \<and>
   sorted (fst (renderTrendChart (processData sample_data))) \<and>
   distinct (fst (renderTrendChart (processData sample_data))) \<and>
   monthKey \<lparr>getTime = 1735603200000, getFullYear = 2024, getMonth = 11\<rparr> = ''2024-12'' \<and>
   monthKey \<lparr>getTime = 1735689600000, getFullYear = 2025, getMonth = 0\<rparr> = ''2025-01'' \<and>
   monthKey \<lparr>getTime = 1735603200000, getFullYear = 2024, getMonth = 11\<rparr>
     < monthKey \<lparr>getTime = 1735689600000, getFullYear = 2025, getMonth = 0\<rparr>"
proof -
  let ?d1 = "\<lparr>getTime = 1735603200000, getFullYear = 2024, getMonth = 11\<rparr>"
  let ?d2 = "\<lparr>getTime = 1735689600000, getFullYear = 2025, getMonth = 0\<rparr>"
  have f: "list_all (\<lambda>r. isFinite (emission r)) (processData sample_data)" by code_simp
  have m: "monthlyTotals (processData sample_data)
             = [(''2024-01'', Num (Fin (181067 / 2000))), (''2024-02'', Num (Fin 0))]"
    by (simp add: monthlyTotals_def add_to_def assign_def read_prop_def inherited_def
        Object_prototype_names_def factor_of_def processData_def sample_data_def mk_activity_def
        set_emission_def sort_by_def by_date_def sub_def positive_def obj_get_def
        EMISSION_FACTORS_def monthKey_def show_int_def show_nat.simps digit_char_def padStart0_def)
  have k: "Object_keys [(''2024-01'', Num (Fin (181067 / 2000))), (''2024-02'', Num (Fin 0))]
             = [''2024-01'', ''2024-02'']" by code_simp
  have s: "sort_strings [''2024-01'', ''2024-02''] = [''2024-01'', ''2024-02'']" by code_simp
  have c: "renderTrendChart (processData sample_data)
     = ([''2024-01'', ''2024-02''], [Some (Num (Fin (181067 / 2000))), Some (Num (Fin 0))])"
    unfolding renderTrendChart_def m k s Let_def by (simp add: read_prop_def obj_get_def)
  have k1: "monthKey ?d1 = ''2024-12''" and k2: "monthKey ?d2 = ''2025-01''"
    by (simp_all add: monthKey_def show_int_def show_nat.simps digit_char_def padStart0_def)
  note w = month_buckets[of "processData sample_data" ?d1 ?d2, unfolded Let_def]
  have sd: "sorted (fst (renderTrendChart (processData sample_data)))"
    "distinct (fst (renderTrendChart (processData sample_data)))" using w by blast+
  have "monthKey ?d1 < monthKey ?d2 \<longleftrightarrow>
         getFullYear ?d1 < getFullYear ?d2 \<or> (getFullYear ?d1 = getFullYear ?d2 \<and> getMonth ?d1 < getMonth ?d2)"
    using w by simp
  then have o: "monthKey ?d1 < monthKey ?d2" by simp
  show ?thesis using f c sd k1 k2 o by simp
qed

text \<open>
  C8. When the stored history is absent or does not parse, the history read is the empty
  list and \<open>loadHistory\<close> shows the empty-history message without throwing. Saving then
  behaves as it does on a stored empty list: it stores the list of the one new entry.
\<close>

theorem unreadable_history_is_empty:
  assumes "storage p = None \<or> (\<exists>blob. storage p = Some blob \<and> parse blob = None)"
  shows "readHistory parse (storage p) = JArr [] \<and>
         loadHistory parse p = (None, p\<lparr>history := NoHistory\<rparr>) \<and>
         (parse b0 = Some (JArr []) \<longrightarrow>
            loadHistory parse (p\<lparr>storage := Some b0\<rparr>)
              = (None, p\<lparr>storage := Some b0, history := NoHistory\<rparr>) \<and>
            (result p = Some data \<and> data \<noteq> [] \<and> parse data = Some entry \<longrightarrow>
               saveResult parse stringify p = saveResult parse stringify (p\<lparr>storage := Some b0\<rparr>) \<and>
               storage (snd (saveResult parse stringify p)) = Some (stringify (JArr [entry]))))"
proof -
  have e: "readHistory parse (storage p) = JArr []"
    by (rule readHistory_empty[OF assms])
  have l: "loadHistory parse p = (None, p\<lparr>history := NoHistory\<rparr>)"
    by (rule loadHistory_empty[OF e])
  have l0: "loadHistory parse (p\<lparr>storage := Some b0\<rparr>)
              = (None, p\<lparr>storage := Some b0, history := NoHistory\<rparr>)"
    if "parse b0 = Some (JArr [])"
    using loadHistory_empty[of parse "p\<lparr>storage := Some b0\<rparr>"] readHistory_empty_blob[of parse b0] that
    by simp
  have s: "saveResult parse stringify p = saveResult parse stringify (p\<lparr>storage := Some b0\<rparr>)"
    if "parse b0 = Some (JArr [])" "result p = Some data \<and> data \<noteq> [] \<and> parse data = Some entry"
    by (rule saveResult_depends_on_history[where data = data and entry = entry and entries = "[]"])
       (use that e readHistory_empty_blob[of parse b0] in simp_all)
  have st: "storage (snd (saveResult parse stringify p)) = Some (stringify (JArr [entry]))"
    if "result p = Some data \<and> data \<noteq> [] \<and> parse data = Some entry"
    using that e storage_loadHistory[of parse "p\<lparr>storage := Some (stringify (JArr [entry]))\<rparr>"]
    by (auto simp: saveResult_def split: prod.splits option.splits)
  show ?thesis using e l l0 s st by blast
qed

text \<open>
  C8 on a page whose stored history is the corrupt text \<open>{bad\<close>.
\<close>

theorem unreadable_history_is_empty_witness:
  "storage corrupt_page = Some ''{bad'' \<and> sample_parse ''{bad'' = None \<and>
   readHistory sample_parse (storage corrupt_page) = JArr [] \<and>
   loadHistory sample_parse corrupt_page = (None, corrupt_page\<lparr>history := NoHistory\<rparr>) \<and>
   sample_parse ''[]'' = Some (JArr []) \<and>
   saveResult sample_parse sample_stringify corrupt_page
     = saveResult sample_parse sample_stringify (corrupt_page\<lparr>storage := Some ''[]''\<rparr>) \<and>
   storage (snd (saveResult sample_parse sample_stringify corrupt_page)) = Some ''[e]''"
proof -
  have a: "storage corrupt_page = Some ''{bad''" by code_simp
  have b: "sample_parse ''{bad'' = None" by code_simp
  have h: "storage corrupt_page = None \<or>
           (\<exists>blob. storage corrupt_page = Some blob \<and> sample_parse blob = None)"
    using a b by simp
  have e: "sample_parse ''[]'' = Some (JArr [])" by code_simp
  have r: "result corrupt_page = Some ''e'' \<and> ''e'' \<noteq> [] \<and> sample_parse ''e'' = Some sample_entry"
    by code_simp
  have st: "sample_stringify (JArr [sample_entry]) = ''[e]''" by code_simp
  note w = unreadable_history_is_empty[OF h, of "''[]''" "''e''" sample_entry sample_stringify]
  have c1: "readHistory sample_parse (storage corrupt_page) = JArr []"
    and c2: "loadHistory sample_parse corrupt_page = (None, corrupt_page\<lparr>history := NoHistory\<rparr>)"
    using w by blast+
  have c3: "saveResult sample_parse sample_stringify corrupt_page
     = saveResult sample_parse sample_stringify (corrupt_page\<lparr>storage := Some ''[]''\<rparr>)"
    and c4: "storage (snd (saveResult sample_parse sample_stringify corrupt_page))
               = Some (sample_stringify (JArr [sample_entry]))"
    using w e r by blast+
  show ?thesis using a b c1 c2 e c3 c4 st by simp
qed

text \<open>
  C9. Without a calculated result, \<open>saveResult\<close> alerts the user to calculate first and
  leaves the stored history as it is. With a result, and a stored history that reads as a
  list, it stores that list with the new entry appended at the end; read back, the history
  is the old entries in their order followed by the new one.
\<close>

theorem save_prompts_or_appends:
  "((result p = None \<or> result p = Some []) \<longrightarrow>
      saveResult parse stringify p
        = (None, p\<lparr>alerts := alerts p @ [''Please calculate your emissions first.'']\<rparr>) \<and>
      storage (snd (saveResult parse stringify p)) = storage p) \<and>
   (result p = Some data \<and> data \<noteq> [] \<and> parse data = Some entry \<and>
    readHistory parse (storage p) = JArr entries \<longrightarrow>
      storage (snd (saveResult parse stringify p)) = Some (stringify (JArr (entries @ [entry]))) \<and>
      (parse (stringify (JArr (entries @ [entry]))) = Some (JArr (entries @ [entry])) \<longrightarrow>
         readHistory parse (storage (snd (saveResult parse stringify p))) = JArr (entries @ [entry])))"
proof (rule conjI; rule impI)
  assume "result p = None \<or> result p = Some []"
  then show "saveResult parse stringify p
        = (None, p\<lparr>alerts := alerts p @ [''Please calculate your emissions first.'']\<rparr>) \<and>
      storage (snd (saveResult parse stringify p)) = storage p"
    by (auto simp: saveResult_def prompt_to_calculate_def)
next
  assume h: "result p = Some data \<and> data \<noteq> [] \<and> parse data = Some entry \<and>
    readHistory parse (storage p) = JArr entries"
  have st: "storage (snd (saveResult parse stringify p)) = Some (stringify (JArr (entries @ [entry])))"
    using h storage_loadHistory[of parse "p\<lparr>storage := Some (stringify (JArr (entries @ [entry])))\<rparr>"]
    by (auto simp: saveResult_def split: prod.splits option.splits)
  show "storage (snd (saveResult parse stringify p)) = Some (stringify (JArr (entries @ [entry]))) \<and>
      (parse (stringify (JArr (entries @ [entry]))) = Some (JArr (entries @ [entry])) \<longrightarrow>
         readHistory parse (storage (snd (saveResult parse stringify p))) = JArr (entries @ [entry]))"
    using st by (simp add: readHistory_def)
qed

text \<open>
  C9 on a page with one saved entry: without a result the alert is shown and the store keeps
  its one entry; with a result the store holds two.
\<close>

theorem save_prompts_or_appends_witness:
  "result (sample_page\<lparr>result := None\<rparr>) = None \<and>
   saveResult sample_parse sample_stringify (sample_page\<lparr>result := None\<rparr>)
     = (None, sample_page\<lparr>result := None, alerts := [''Please calculate your emissions first.'']\<rparr>) \<and>
   storage (snd (saveResult sample_parse sample_stringify (sample_page\<lparr>result := None\<rparr>)))
     = Some ''[e]'' \<and>
   result sample_page = Some ''e'' \<and> sample_parse ''e'' = Some sample_entry \<and>
   readHistory sample_parse (storage sample_page) = JArr [sample_entry] \<and>
   storage (snd (saveResult sample_parse sample_stringify sample_page)) = Some ''[e,e]'' \<and>
   readHistory sample_parse (storage (snd (saveResult sample_parse sample_stringify sample_page)))
     = JArr [sample_entry, sample_entry]"
proof -
  let ?q = "sample_page\<lparr>result := None\<rparr>"
  have n: "result ?q = None" by simp
  have al: "alerts ?q = []" and sq: "storage ?q = Some ''[e]''" by (simp_all add: sample_page_def)
  note w1 = save_prompts_or_appends[of ?q sample_parse sample_stringify]
  have p1: "saveResult sample_parse sample_stringify ?q
              = (None, ?q\<lparr>alerts := alerts ?q @ [''Please calculate your emissions first.'']\<rparr>)"
    and p2: "storage (snd (saveResult sample_parse sample_stringify ?q)) = storage ?q"
    using w1 n by blast+
  have r: "result sample_page = Some ''e''" by code_simp
  have pe: "sample_parse ''e'' = Some sample_entry" by code_simp
  have rh: "readHistory sample_parse (storage sample_page) = JArr [sample_entry]" by code_simp
  have st: "sample_stringify (JArr ([sample_entry] @ [sample_entry])) = ''[e,e]''" by code_simp
  have rt: "sample_parse ''[e,e]'' = Some (JArr ([sample_entry] @ [sample_entry]))" by code_simp
  note w2 = save_prompts_or_appends[of sample_page sample_parse sample_stringify "''e''" sample_entry
      "[sample_entry]"]
  have h2: "result sample_page = Some ''e'' \<and> ''e'' \<noteq> [] \<and> sample_parse ''e'' = Some sample_entry \<and>
    readHistory sample_parse (storage sample_page) = JArr [sample_entry]"
    using r pe rh by simp
  have s1: "storage (snd (saveResult sample_parse sample_stringify sample_page))
              = Some (sample_stringify (JArr ([sample_entry] @ [sample_entry])))"
    using w2 h2 by blast
  have s2: "readHistory sample_parse (storage (snd (saveResult sample_parse sample_stringify sample_page)))
              = JArr ([sample_entry] @ [sample_entry])"
    using w2 h2 rt unfolding st by blast
  show ?thesis using n p1 p2 al sq r pe rh s1 s2 st by simp
qed

text \<open>
  C10. When the first line of the trimmed input begins with \<open>#\<close>, the parser still takes
  it as the header: the data lines are parsed against its comma-separated pieces, the first
  column name begins with \<open>#\<close>, and every record carries exactly these names (a column
  named \<open>__proto__\<close> apart, which sets no property). The same line after the header is
  skipped.
\<close>

theorem comment_line_taken_as_header:
  assumes "split_lines (trim text) = first # rest" and "rest \<noteq> []" and "startsWith first ''#''"
  shows "parseCSV Date_parse parseFloat text
           = parse_lines Date_parse parseFloat (header_of first) rest \<and>
         startsWith (hd (header_of first)) ''#'' \<and>
         (\<forall>data. parseCSV Date_parse parseFloat text = Inr data \<longrightarrow>
            (\<forall>r \<in> set data.
               map fst (props r)
                 = first_occurrences (filter (\<lambda>k. k \<noteq> ''__proto__'') (header_of first)))) \<and>
         parse_lines Date_parse parseFloat header (first # others)
           = parse_lines Date_parse parseFloat header others"
proof -
  have len: "\<not> length (first # rest) < 2" using assms(2) by (cases rest) auto
  have a: "parseCSV Date_parse parseFloat text
           = parse_lines Date_parse parseFloat (header_of first) rest"
    using len by (simp add: parseCSV_def Let_def assms(1))
  have b: "startsWith (hd (header_of first)) ''#''"
    by (rule header_starts_with_hash[OF assms(3)])
  have c: "map fst (props r)
             = first_occurrences (filter (\<lambda>k. k \<noteq> ''__proto__'') (header_of first))"
    if "parseCSV Date_parse parseFloat text = Inr data" "r \<in> set data" for data r
    using parse_lines_props[of Date_parse parseFloat "header_of first" rest data r] that
    by (auto simp: a keys_build_record)
  have d: "parse_lines Date_parse parseFloat header (first # others)
           = parse_lines Date_parse parseFloat header others"
    using assms(3) by simp
  show ?thesis using a b c d by blast
qed

text \<open>
  C10 on a text that opens with a comment line: the true header is read as a data line and
  dropped for its date, and the remaining row is keyed by the words of the comment.
\<close>

theorem comment_line_taken_as_header_witness:
  "split_lines (trim commented_text)
     = [''# Day, Date, Category'', ''date,department,category'', ''Fri,2024-01-05,Waste''] \<and>
   startsWith ''# Day, Date, Category'' ''#'' \<and>
   header_of ''# Day, Date, Category'' = [''# day'', ''date'', ''category''] \<and>
   parseCSV sample_Date_parse sample_parseFloat commented_text
     = Inr [\<lparr>props = [(''# day'', ''Fri''), (''date'', ''2024-01-05''), (''category'', ''Waste'')],
            date = \<lparr>getTime = 1704412800000, getFullYear = 2024, getMonth = 0\<rparr>,
            amount = NaN, category = ''waste''\<rparr>]"
proof -
  let ?first = "''# Day, Date, Category''"
  let ?rest = "[''date,department,category'', ''Fri,2024-01-05,Waste'']"
  have s: "split_lines (trim commented_text) = ?first # ?rest" by code_simp
  have n: "?rest \<noteq> []" by simp
  have c: "startsWith ?first ''#''" by code_simp
  have h: "header_of ?first = [''# day'', ''date'', ''category'']" by code_simp
  have v: "parse_lines sample_Date_parse sample_parseFloat [''# day'', ''date'', ''category''] ?rest
     = Inr [\<lparr>props = [(''# day'', ''Fri''), (''date'', ''2024-01-05''), (''category'', ''Waste'')],
            date = \<lparr>getTime = 1704412800000, getFullYear = 2024, getMonth = 0\<rparr>,
            amount = NaN, category = ''waste''\<rparr>]" by code_simp
  note w = comment_line_taken_as_header[OF s n c, of sample_Date_parse sample_parseFloat]
  have p: "parseCSV sample_Date_parse sample_parseFloat commented_text
     = parse_lines sample_Date_parse sample_parseFloat (header_of ?first) ?rest"
    using w by blast
  show ?thesis using s c h v unfolding p h by simp
qed

end
